theory Spec2Isabelle
  imports Complex_Main "HOL-Library.Word" "HOL-Library.Code_Target_Numeral"
begin

section \<open>Floating-point values of the notebook\<close>

text \<open>
  The arrays of \<^verbatim>\<open>plot_embedding\<close> and the floats of \<^verbatim>\<open>matplotlib_to_plotly\<close> are float64
  values (IEEE 754 binary64). A value is a finite number or one of the three special values.
  Every arithmetic operation on finite values gives the exact result rounded to the nearest
  float64 value, ties to the even mantissa, and an infinity on overflow; the special values
  follow the IEEE rules that numpy applies (a division by zero gives NaN or an infinity with
  a warning, never an exception; every comparison with NaN is false). The sign of a zero is
  not part of this model: no result of the two functions depends on it.
\<close>

datatype fl = Fin real | PInf | NInf | NaN

text \<open>The power of two with an integer exponent.\<close>

definition pow2 :: "int \<Rightarrow> real" where
  "pow2 k = (if 0 \<le> k then 2 ^ nat k else 1 / 2 ^ nat (- k))"

text \<open>The binary logarithm of a positive integer, rounded down.\<close>

function ilog2 :: "int \<Rightarrow> int" where
  "ilog2 n = (if n < 2 then 0 else ilog2 (n div 2) + 1)"
  by pat_completeness auto
termination
  by (relation "measure nat") auto

declare ilog2.simps [simp del]

text \<open>The binary exponent of a positive number \<open>x\<close>: the \<open>e\<close> with \<open>pow2 e \<le> x < pow2 (e + 1)\<close>.\<close>

definition expo :: "real \<Rightarrow> int" where
  "expo x = (if 1 \<le> x then ilog2 \<lfloor>x\<rfloor> else - ilog2 (\<lceil>1 / x\<rceil> - 1) - 1)"

text \<open>Rounding to the nearest integer, a tie to the even one.\<close>

definition rne :: "real \<Rightarrow> int" where
  "rne y = (let f = \<lfloor>y\<rfloor>; d = y - real_of_int f
            in if d < 1 / 2 then f else if 1 / 2 < d then f + 1
               else if even f then f else f + 1)"

text \<open>
  The distance between neighbouring float64 values around \<open>x\<close>: 52 mantissa bits below the
  binary exponent, which is at least -1022 (below are the subnormal numbers, all multiples
  of \<open>pow2 (- 1074)\<close>).
\<close>

definition ulp :: "real \<Rightarrow> real" where
  "ulp x = pow2 (max (expo \<bar>x\<bar>) (- 1022) - 52)"

definition rval :: "real \<Rightarrow> real" where
  "rval x = real_of_int (rne (x / ulp x)) * ulp x"

text \<open>The float64 value of a real number; from \<open>pow2 1024\<close> on the rounded value is an infinity.\<close>

definition round64 :: "real \<Rightarrow> fl" where
  "round64 x =
     (if x = 0 then Fin 0
      else if pow2 1024 \<le> \<bar>rval x\<bar> then (if 0 < x then PInf else NInf)
      else Fin (rval x))"

text \<open>The float64 values among the real numbers are those that rounding leaves as they are.\<close>

definition is_f64 :: "real \<Rightarrow> bool" where
  "is_f64 r = (round64 r = Fin r)"

fun fsub :: "fl \<Rightarrow> fl \<Rightarrow> fl" where
  "fsub (Fin a) (Fin b) = round64 (a - b)"
| "fsub NaN _ = NaN"
| "fsub _ NaN = NaN"
| "fsub PInf PInf = NaN"
| "fsub NInf NInf = NaN"
| "fsub PInf _ = PInf"
| "fsub NInf _ = NInf"
| "fsub (Fin a) PInf = NInf"
| "fsub (Fin a) NInf = PInf"

fun fadd :: "fl \<Rightarrow> fl \<Rightarrow> fl" where
  "fadd (Fin a) (Fin b) = round64 (a + b)"
| "fadd NaN _ = NaN"
| "fadd _ NaN = NaN"
| "fadd PInf NInf = NaN"
| "fadd NInf PInf = NaN"
| "fadd PInf _ = PInf"
| "fadd NInf _ = NInf"
| "fadd (Fin a) PInf = PInf"
| "fadd (Fin a) NInf = NInf"

text \<open>\<^verbatim>\<open>a * b\<close>\<close>

fun fmul :: "fl \<Rightarrow> fl \<Rightarrow> fl" where
  "fmul (Fin a) (Fin b) = round64 (a * b)"
| "fmul NaN _ = NaN"
| "fmul _ NaN = NaN"
| "fmul (Fin a) PInf = (if a = 0 then NaN else if 0 < a then PInf else NInf)"
| "fmul (Fin a) NInf = (if a = 0 then NaN else if 0 < a then NInf else PInf)"
| "fmul PInf (Fin b) = (if b = 0 then NaN else if 0 < b then PInf else NInf)"
| "fmul NInf (Fin b) = (if b = 0 then NaN else if 0 < b then NInf else PInf)"
| "fmul PInf PInf = PInf"
| "fmul NInf NInf = PInf"
| "fmul PInf NInf = NInf"
| "fmul NInf PInf = NInf"

text \<open>\<^verbatim>\<open>v ** 2\<close>, which numpy computes as the product \<^verbatim>\<open>v * v\<close>.\<close>

fun fsq :: "fl \<Rightarrow> fl" where
  "fsq (Fin a) = round64 (a * a)"
| "fsq NaN = NaN"
| "fsq PInf = PInf"
| "fsq NInf = PInf"

text \<open>
  \<^verbatim>\<open>a / b\<close> on numpy floats. A zero divisor is the positive zero here: the only divisor of
  \<^verbatim>\<open>plot_embedding\<close> is \<^verbatim>\<open>x_max - x_min\<close>, and \<^verbatim>\<open>v - v\<close> is \<^verbatim>\<open>+0.0\<close>.
\<close>

fun fdiv :: "fl \<Rightarrow> fl \<Rightarrow> fl" where
  "fdiv (Fin a) (Fin b) =
     (if b = 0 then (if a = 0 then NaN else if 0 < a then PInf else NInf)
      else round64 (a / b))"
| "fdiv NaN _ = NaN"
| "fdiv _ NaN = NaN"
| "fdiv (Fin a) _ = Fin 0"
| "fdiv PInf (Fin b) = (if 0 \<le> b then PInf else NInf)"
| "fdiv NInf (Fin b) = (if 0 \<le> b then NInf else PInf)"
| "fdiv _ _ = NaN"

text \<open>\<^verbatim>\<open>a < b\<close>\<close>

fun flt :: "fl \<Rightarrow> fl \<Rightarrow> bool" where
  "flt (Fin a) (Fin b) = (a < b)"
| "flt NaN _ = False"
| "flt _ NaN = False"
| "flt _ NInf = False"
| "flt PInf _ = False"
| "flt NInf _ = True"
| "flt (Fin a) PInf = True"

text \<open>\<^verbatim>\<open>np.minimum\<close> and \<^verbatim>\<open>np.maximum\<close>: a NaN operand gives NaN.\<close>

definition fmin :: "fl \<Rightarrow> fl \<Rightarrow> fl" where
  "fmin a b = (if a = NaN \<or> b = NaN then NaN else if flt b a then b else a)"

definition fmax :: "fl \<Rightarrow> fl \<Rightarrow> fl" where
  "fmax a b = (if a = NaN \<or> b = NaN then NaN else if flt a b then b else a)"

text \<open>
  \<^verbatim>\<open>np.min\<close> and \<^verbatim>\<open>np.max\<close> of a one-dimensional array reduce it from the left. They raise
  ValueError on an empty array; the callers below check that before they reduce.
\<close>

fun np_min :: "fl list \<Rightarrow> fl" where
  "np_min [] = NaN"
| "np_min (v # vs) = foldl fmin v vs"

fun np_max :: "fl list \<Rightarrow> fl" where
  "np_max [] = NaN"
| "np_max (v # vs) = foldl fmax v vs"

section \<open>Chart objects\<close>

datatype error = ValueError | IndexError | UnboundLocalError | ZeroDivisionError | OverflowError

type_synonym point = "fl \<times> fl"

type_synonym rgba = "real \<times> real \<times> real \<times> real"

text \<open>\<^verbatim>\<open>'rgb' + str(c[:3])\<close> for a colour \<open>c\<close> of floats; the digits of the floats are not rendered.\<close>

datatype color = RgbStr real real real

fun rgb_of :: "rgba \<Rightarrow> color" where
  "rgb_of (r, g, b, a) = RgbStr r g b"

record annotation =
  anno_x :: fl
  anno_y :: fl
  anno_text :: string
  showarrow :: bool
  font_size :: nat
  font_color :: color

record scatter =
  scatter_x :: "fl list"
  scatter_y :: "fl list"
  showlegend :: bool
  mode :: string
  marker_color :: string
  marker_size :: nat
  marker_line_color :: string
  marker_line_width :: nat

record axis =
  ticks :: string
  showticklabels :: bool
  showgrid :: bool
  zeroline :: bool

record layout =
  annotations :: "annotation list"
  title :: "string option"
  xaxis :: axis
  yaxis :: axis

record figure =
  fig_data :: "scatter list"
  fig_layout :: layout

section \<open>The globals of the notebook\<close>

text \<open>
  \<^verbatim>\<open>plot_embedding(X, title=None)\<close> reads three names that are not parameters:
  \<^verbatim>\<open>digits.data.shape[0]\<close>, \<^verbatim>\<open>digits.target\<close> and \<^verbatim>\<open>y\<close>; and the colormap
  \<^verbatim>\<open>plt.cm.Set1\<close> of matplotlib. They are the fields of this record; the rest of the
  program state is the extension of the record.
\<close>

record globals =
  digits_data_shape0 :: nat
  digits_target :: "int list"
  glob_y :: "int list"
  cm_Set1 :: "real \<Rightarrow> rgba"

section \<open>\<^verbatim>\<open>str\<close> of an integer\<close>

definition digit_char :: "nat \<Rightarrow> char" where
  "digit_char d = ''0123456789'' ! d"

fun str_nat :: "nat \<Rightarrow> string" where
  "str_nat n = (if n < 10 then [digit_char n] else str_nat (n div 10) @ [digit_char (n mod 10)])"

declare str_nat.simps [simp del]

definition str_int :: "int \<Rightarrow> string" where
  "str_int i = (if i < 0 then CHR ''-'' # str_nat (nat (- i)) else str_nat (nat i))"

section \<open>\<^verbatim>\<open>plot_embedding\<close>\<close>

text \<open>\<^verbatim>\<open>x_min, x_max = np.min(X, 0), np.max(X, 0)\<close>\<close>

definition np_min0 :: "point list \<Rightarrow> error + point" where
  "np_min0 X = (if X = [] then Inl ValueError
                else Inr (np_min (map fst X), np_min (map snd X)))"

definition np_max0 :: "point list \<Rightarrow> error + point" where
  "np_max0 X = (if X = [] then Inl ValueError
                else Inr (np_max (map fst X), np_max (map snd X)))"

text \<open>\<^verbatim>\<open>X = (X - x_min) / (x_max - x_min)\<close>, with no test of the divisor.\<close>

definition rescale :: "point list \<Rightarrow> point \<Rightarrow> point \<Rightarrow> point list" where
  "rescale X x_min x_max =
     map (\<lambda>p. (fdiv (fsub (fst p) (fst x_min)) (fsub (fst x_max) (fst x_min)),
               fdiv (fsub (snd p) (snd x_min)) (fsub (snd x_max) (snd x_min)))) X"

text \<open>The first two lines of the function: the rows of \<open>X\<close> from there on.\<close>

definition normalize :: "point list \<Rightarrow> error + point list" where
  "normalize X =
     (case np_min0 X of Inl e \<Rightarrow> Inl e | Inr x_min \<Rightarrow>
      case np_max0 X of Inl e \<Rightarrow> Inl e | Inr x_max \<Rightarrow>
      Inr (rescale X x_min x_max))"

text \<open>The annotation of row \<open>i\<close>.\<close>

definition mk_anno :: "'a globals_scheme \<Rightarrow> point list \<Rightarrow> nat \<Rightarrow> annotation" where
  "mk_anno g X i =
     \<lparr>anno_x = fst (X ! i), anno_y = snd (X ! i),
      anno_text = str_int (digits_target g ! i),
      showarrow = False, font_size = 11,
      font_color = rgb_of (cm_Set1 g (real_of_int (glob_y g ! i) / 10))\<rparr>"

text \<open>
  \<^verbatim>\<open>for i in range(X.shape[0]): anno.append(...)\<close>. Reading \<^verbatim>\<open>digits.target[i]\<close> or
  \<^verbatim>\<open>y[i]\<close> past the end of the array raises IndexError.
\<close>

fun anno_loop :: "'a globals_scheme \<Rightarrow> point list \<Rightarrow> nat list \<Rightarrow> annotation list
                  \<Rightarrow> error + annotation list" where
  "anno_loop g X [] anno = Inr anno"
| "anno_loop g X (i # is) anno =
     (if length (digits_target g) \<le> i \<or> length (glob_y g) \<le> i then Inl IndexError
      else anno_loop g X is (anno @ [mk_anno g X i]))"

text \<open>\<^verbatim>\<open>np.sum((X[i] - shown_images) ** 2, 1)\<close>, for one row of \<^verbatim>\<open>shown_images\<close>.\<close>

definition sqdist :: "point \<Rightarrow> point \<Rightarrow> fl" where
  "sqdist p s = fadd (fsq (fsub (fst p) (fst s))) (fsq (fsub (snd p) (snd s)))"

text \<open>The literal \<^verbatim>\<open>4e-3\<close>: the float64 value nearest to 4/1000.\<close>

definition thr :: fl where
  "thr = round64 (4 / 1000)"

definition seed :: point where
  "seed = (Fin 1, Fin 1)"

text \<open>
  The second loop, \<^verbatim>\<open>for i in range(digits.data.shape[0])\<close>. Its state is
  \<^verbatim>\<open>shown_images\<close> and the pair \<^verbatim>\<open>x_\<close>, \<^verbatim>\<open>y_\<close>, which is bound only once a row has been
  kept: the loop rebuilds both lists from \<^verbatim>\<open>shown_images\<close> after every row it keeps.
  \<^verbatim>\<open>X[i]\<close> raises IndexError past the last row of \<open>X\<close>. The inner loop reuses the name
  \<^verbatim>\<open>i\<close>, which the outer \<^verbatim>\<open>for\<close> binds again from its range; the list \<^verbatim>\<open>data\<close> is never read.
\<close>

type_synonym scan_state = "point list \<times> (fl list \<times> fl list) option"

fun dedup_loop :: "point list \<Rightarrow> nat list \<Rightarrow> scan_state \<Rightarrow> error + scan_state" where
  "dedup_loop X [] s = Inr s"
| "dedup_loop X (i # is) (shown_images, xy) =
     (if length X \<le> i then Inl IndexError
      else if flt (np_min (map (sqdist (X ! i)) shown_images)) thr
      then dedup_loop X is (shown_images, xy)
      else dedup_loop X is
             (shown_images @ [X ! i],
              Some (map fst (shown_images @ [X ! i]), map snd (shown_images @ [X ! i]))))"

definition no_axis :: axis where
  "no_axis = \<lparr>ticks = [], showticklabels = False, showgrid = False, zeroline = False\<rparr>"

definition mk_figure :: "annotation list \<Rightarrow> string option \<Rightarrow> fl list \<Rightarrow> fl list \<Rightarrow> figure" where
  "mk_figure anno ttl xs ys =
     \<lparr>fig_data = [\<lparr>scatter_x = xs, scatter_y = ys, showlegend = False, mode = ''markers'',
                   marker_color = ''white'', marker_size = 15,
                   marker_line_color = ''black'', marker_line_width = 1\<rparr>],
      fig_layout = \<lparr>annotations = anno, title = ttl, xaxis = no_axis, yaxis = no_axis\<rparr>\<rparr>"

text \<open>
  The function. Reading \<^verbatim>\<open>x_\<close> after a loop that kept no row raises UnboundLocalError.
\<close>

definition plot_embedding :: "'a globals_scheme \<Rightarrow> point list \<Rightarrow> string option \<Rightarrow> error + figure" where
  "plot_embedding g X ttl =
     (case normalize X of Inl e \<Rightarrow> Inl e | Inr X' \<Rightarrow>
      case anno_loop g X' [0..<length X'] [] of Inl e \<Rightarrow> Inl e | Inr anno \<Rightarrow>
      case dedup_loop X' [0..<digits_data_shape0 g] ([seed], None) of Inl e \<Rightarrow> Inl e
      | Inr (shown_images, xy) \<Rightarrow>
      (case xy of None \<Rightarrow> Inl UnboundLocalError
       | Some (xs, ys) \<Rightarrow> Inr (mk_figure anno ttl xs ys)))"

section \<open>\<^verbatim>\<open>matplotlib_to_plotly\<close>\<close>

text \<open>
  The conversion of a Python integer to a float, as \<^verbatim>\<open>1.0/(pl_entries-1)\<close> and \<^verbatim>\<open>k*h\<close> do it:
  the nearest float64 value, and OverflowError where that would be an infinity.
\<close>

definition py_float :: "int \<Rightarrow> error + fl" where
  "py_float n = (case round64 (real_of_int n) of Fin v \<Rightarrow> Inr (Fin v) | _ \<Rightarrow> Inl OverflowError)"

text \<open>
  \<^verbatim>\<open>np.uint8(v)\<close>: the fraction is cut off and the integer taken modulo 256. The conversion
  of a value that is not finite is not defined by numpy; it is 0 here.
\<close>

definition to_uint8 :: "fl \<Rightarrow> 8 word" where
  "to_uint8 v = (case v of Fin r \<Rightarrow> word_of_int (if 0 \<le> r then \<lfloor>r\<rfloor> else - \<lfloor>- r\<rfloor>) | _ \<Rightarrow> 0)"

text \<open>\<^verbatim>\<open>'rgb' + str((C[0], C[1], C[2]))\<close>\<close>

definition rgb_str :: "8 word \<Rightarrow> 8 word \<Rightarrow> 8 word \<Rightarrow> string" where
  "rgb_str r g b =
     ''rgb('' @ str_nat (unat r) @ '', '' @ str_nat (unat g) @ '', '' @ str_nat (unat b) @ '')''"

text \<open>
  One stop: \<^verbatim>\<open>[k*h, 'rgb'+str((C[0], C[1], C[2]))]\<close> with
  \<^verbatim>\<open>C = map(np.uint8, np.array(cmap(k*h)[:3])*255)\<close>. The colormap is a parameter: a function
  from a float to four float64 numbers.
\<close>

definition mk_stop :: "(fl \<Rightarrow> rgba) \<Rightarrow> fl \<Rightarrow> nat \<Rightarrow> fl \<times> string" where
  "mk_stop cmap h k =
     (let p = fmul (round64 (real k)) h in
      case cmap p of (r, g, b, a) \<Rightarrow>
        (p, rgb_str (to_uint8 (fmul (Fin r) (Fin 255))) (to_uint8 (fmul (Fin g) (Fin 255)))
                    (to_uint8 (fmul (Fin b) (Fin 255)))))"

fun stops_loop :: "(fl \<Rightarrow> rgba) \<Rightarrow> fl \<Rightarrow> nat list \<Rightarrow> (fl \<times> string) list
                   \<Rightarrow> (fl \<times> string) list" where
  "stops_loop cmap h [] pl_colorscale = pl_colorscale"
| "stops_loop cmap h (k # ks) pl_colorscale =
     stops_loop cmap h ks (pl_colorscale @ [mk_stop cmap h k])"

text \<open>
  \<^verbatim>\<open>h = 1.0/(pl_entries-1)\<close> is a division of Python floats: it raises on a zero divisor.
  \<^verbatim>\<open>range(pl_entries)\<close> is a list in Python 2, empty for a negative argument, and raises
  OverflowError from \<open>2 ^ 63\<close> on (a 64-bit build); the memory that the list takes is not
  limited here.
\<close>

definition matplotlib_to_plotly :: "(fl \<Rightarrow> rgba) \<Rightarrow> int \<Rightarrow> error + (fl \<times> string) list" where
  "matplotlib_to_plotly cmap pl_entries =
     (if pl_entries - 1 = 0 then Inl ZeroDivisionError
      else case py_float (pl_entries - 1) of Inl e \<Rightarrow> Inl e | Inr d \<Rightarrow>
        if 2 ^ 63 \<le> pl_entries then Inl OverflowError
        else Inr (stops_loop cmap (fdiv (Fin 1) d) [0..<nat pl_entries] []))"

section \<open>Notions used to state the properties\<close>

definition finite_fl :: "fl \<Rightarrow> bool" where
  "finite_fl v = (case v of Fin a \<Rightarrow> True | _ \<Rightarrow> False)"

definition finite_rows :: "point list \<Rightarrow> bool" where
  "finite_rows X = list_all (\<lambda>p. finite_fl (fst p) \<and> finite_fl (snd p)) X"

text \<open>An array of float64 numbers: every entry is finite and a float64 value.\<close>

definition f64_fl :: "fl \<Rightarrow> bool" where
  "f64_fl v = (case v of Fin a \<Rightarrow> is_f64 a | _ \<Rightarrow> False)"

definition f64_rows :: "point list \<Rightarrow> bool" where
  "f64_rows X = list_all (\<lambda>p. f64_fl (fst p) \<and> f64_fl (snd p)) X"

text \<open>A coordinate in the closed interval from 0 to 1.\<close>

definition in_unit :: "fl \<Rightarrow> bool" where
  "in_unit v = (case v of Fin a \<Rightarrow> 0 \<le> a \<and> a \<le> 1 | _ \<Rightarrow> False)"

text \<open>The markers of a figure: the points of its traces.\<close>

definition markers :: "figure \<Rightarrow> point list" where
  "markers fig = concat (map (\<lambda>tr. zip (scatter_x tr) (scatter_y tr)) (fig_data fig))"

text \<open>
  The second loop of \<^verbatim>\<open>plot_embedding\<close> as a function of the rows it visits: what
  \<^verbatim>\<open>shown_images\<close> is after them.
\<close>

fun keep_scan :: "point list \<Rightarrow> point list \<Rightarrow> point list" where
  "keep_scan shown [] = shown"
| "keep_scan shown (p # ps) =
     (if flt (np_min (map (sqdist p) shown)) thr then keep_scan shown ps
      else keep_scan (shown @ [p]) ps)"

text \<open>
  The greedy scan in the words of the specification: rows are visited in order, and a row
  joins the kept points when it is far from every point kept before it. What far means and
  which points are kept at the start are parameters.
\<close>

fun greedy_keep :: "(point \<Rightarrow> point \<Rightarrow> bool) \<Rightarrow> point list \<Rightarrow> point list \<Rightarrow> point list" where
  "greedy_keep far kept [] = kept"
| "greedy_keep far kept (p # ps) =
     (if list_all (far p) kept then greedy_keep far (kept @ [p]) ps
      else greedy_keep far kept ps)"

text \<open>The squared distance, as the loop computes it, exceeds the threshold.\<close>

definition exceeds_thr :: "point \<Rightarrow> point \<Rightarrow> bool" where
  "exceeds_thr p q = flt thr (sqdist p q)"

text \<open>
  The squared distance, as the loop computes it in float64, is not below the float64 value
  of \<^verbatim>\<open>4e-3\<close>: the test of the loop on one distance.
\<close>

definition not_below_thr :: "point \<Rightarrow> point \<Rightarrow> bool" where
  "not_below_thr p q = (\<not> flt (sqdist p q) thr)"

text \<open>The markers of a result, when there is a figure.\<close>

definition result_markers :: "error + figure \<Rightarrow> error + point list" where
  "result_markers r = (case r of Inl e \<Rightarrow> Inl e | Inr fig \<Rightarrow> Inr (markers fig))"

definition result_annotations :: "error + figure \<Rightarrow> error + annotation list" where
  "result_annotations r =
     (case r of Inl e \<Rightarrow> Inl e | Inr fig \<Rightarrow> Inr (annotations (fig_layout fig)))"

text \<open>Any two rows at different positions of the array are far from each other.\<close>

definition far_apart :: "(point \<Rightarrow> point \<Rightarrow> bool) \<Rightarrow> point list \<Rightarrow> bool" where
  "far_apart far X =
     list_all (\<lambda>i. list_all (\<lambda>j. i = j \<or> far (X ! i) (X ! j)) [0..<length X]) [0..<length X]"

text \<open>
  A value for \<^verbatim>\<open>plt.cm.Set1\<close>, which is matplotlib's and not part of the notebook: the lookup
  of a listed colormap of \<open>n\<close> colours at a float \<open>v\<close> (matplotlib 2.0 and later), which takes
  the colour at index \<open>\<lfloor>v * n\<rfloor>\<close>, the first colour below 0 and the last one from 1 on; and
  the nine colours of Set1, as fractions of 255. It is used only where a property is evaluated
  on a concrete colormap.
\<close>

definition listed_cmap :: "(real \<times> real \<times> real) list \<Rightarrow> real \<Rightarrow> rgba" where
  "listed_cmap cols v =
     (let n = length cols;
          k = (if v * real n < 0 then 0 else if real n \<le> v * real n then n - 1
               else nat \<lfloor>v * real n\<rfloor>)
      in case cols ! k of (r, g, b) \<Rightarrow> (r, g, b, 1))"

definition Set1_colors :: "(real \<times> real \<times> real) list" where
  "Set1_colors =
     [(228 / 255, 26 / 255, 28 / 255), (55 / 255, 126 / 255, 184 / 255),
      (77 / 255, 175 / 255, 74 / 255), (152 / 255, 78 / 255, 163 / 255),
      (255 / 255, 127 / 255, 0), (255 / 255, 255 / 255, 51 / 255),
      (166 / 255, 86 / 255, 40 / 255), (247 / 255, 129 / 255, 191 / 255),
      (153 / 255, 153 / 255, 153 / 255)]"

text \<open>The colour of a label in the words of the specification: the palette at the label modulo its size.\<close>

definition palette_color :: "(real \<times> real \<times> real) list \<Rightarrow> int \<Rightarrow> color" where
  "palette_color cols l =
     (case cols ! nat (l mod int (length cols)) of (r, g, b) \<Rightarrow> RgbStr r g b)"

text \<open>One column of the rescaling: the value \<open>(v - mn) / (mx - mn)\<close>.\<close>

definition scale1 :: "fl \<Rightarrow> fl \<Rightarrow> fl \<Rightarrow> fl" where
  "scale1 mn mx v = fdiv (fsub v mn) (fsub mx mn)"

section \<open>Facts about rounding\<close>

lemmas round64_eval = round64_def rval_def ulp_def expo_def rne_def pow2_def ilog2.simps

lemma pow2_powi: "pow2 k = 2 powi k"
  by (simp add: pow2_def power_int_def power_divide inverse_eq_divide)

lemma pow2_pos [simp]: "0 < pow2 k"
  by (simp add: pow2_powi)

lemma pow2_nonneg [simp]: "0 \<le> pow2 k"
  using pow2_pos [of k] by linarith

lemma abs_pow2 [simp]: "\<bar>pow2 k\<bar> = pow2 k"
  by simp

lemma pow2_add: "pow2 (a + b) = pow2 a * pow2 b"
  by (simp add: pow2_powi power_int_add)

lemma pow2_diff: "pow2 (a - b) = pow2 a / pow2 b"
  by (simp add: pow2_powi power_int_diff)

lemma pow2_split: "pow2 k = pow2 j * pow2 (k - j)"
  using pow2_add [of j "k - j"] by simp

lemma pow2_mono: "a \<le> b \<Longrightarrow> pow2 a \<le> pow2 b"
  by (simp add: pow2_powi power_int_increasing)

lemma pow2_strict_mono: "a < b \<Longrightarrow> pow2 a < pow2 b"
  by (simp add: pow2_powi power_int_strict_increasing)

lemma pow2_nat: "pow2 (int n) = 2 ^ n"
  by (simp add: pow2_def)

lemma pow2_0 [simp]: "pow2 0 = 1"
  by (simp add: pow2_def)

lemma ilog2_nonneg: "0 \<le> ilog2 n"
  by (induction n rule: ilog2.induct) (subst ilog2.simps, simp)

lemma ilog2_bounds:
  "1 \<le> n \<Longrightarrow> 2 ^ nat (ilog2 n) \<le> n \<and> n < 2 * 2 ^ nat (ilog2 n)"
proof (induction n rule: ilog2.induct)
  case (1 n)
  show ?case
  proof (cases "n < 2")
    case True
    with "1.prems" have "n = 1" by simp
    then show ?thesis by (simp add: ilog2.simps)
  next
    case False
    then have h: "1 \<le> n div 2" by simp
    from "1.IH" [OF False h] have lo: "2 ^ nat (ilog2 (n div 2)) \<le> n div 2"
      and hi: "n div 2 < 2 * 2 ^ nat (ilog2 (n div 2))" by simp_all
    have e: "ilog2 n = ilog2 (n div 2) + 1" using False by (subst ilog2.simps) simp
    have p: "(2::int) ^ nat (ilog2 n) = 2 * 2 ^ nat (ilog2 (n div 2))"
      using ilog2_nonneg [of "n div 2"] by (simp add: e nat_add_distrib)
    from lo hi show ?thesis unfolding p by linarith
  qed
qed

lemma expo_bounds:
  assumes "0 < x"
  shows "pow2 (expo x) \<le> x \<and> x < pow2 (expo x + 1)"
proof (cases "1 \<le> x")
  case True
  let ?n = "\<lfloor>x\<rfloor>"
  let ?k = "ilog2 ?n"
  from True have n: "1 \<le> ?n" by simp
  from ilog2_bounds [OF n] have lo: "2 ^ nat ?k \<le> ?n" and hi: "?n < 2 * 2 ^ nat ?k" by simp_all
  have e: "expo x = ?k" using True by (simp add: expo_def)
  have k0: "0 \<le> ?k" by (rule ilog2_nonneg)
  have "real_of_int (2 ^ nat ?k) \<le> real_of_int ?n" using lo by (simp only: of_int_le_iff)
  also have "\<dots> \<le> x" by simp
  finally have a: "pow2 ?k \<le> x" using k0 by (simp add: pow2_def)
  from hi have "?n + 1 \<le> 2 * 2 ^ nat ?k" by simp
  then have "real_of_int (?n + 1) \<le> real_of_int (2 * 2 ^ nat ?k)" by (simp only: of_int_le_iff)
  moreover have "x < real_of_int (?n + 1)" by linarith
  ultimately have "x < real_of_int (2 * 2 ^ nat ?k)" by linarith
  then have b: "x < pow2 (?k + 1)" using k0 by (simp add: pow2_def nat_add_distrib)
  from a b e show ?thesis by simp
next
  case False
  let ?c = "\<lceil>1 / x\<rceil> - 1"
  let ?k = "ilog2 ?c"
  from False assms have y: "1 < 1 / x" by simp
  then have "2 \<le> \<lceil>1 / x\<rceil>" by (simp add: le_ceiling_iff) 
  then have c: "1 \<le> ?c" by simp
  from ilog2_bounds [OF c] have lo: "2 ^ nat ?k \<le> ?c" and hi: "?c < 2 * 2 ^ nat ?k" by simp_all
  have e: "expo x = - ?k - 1" using False by (simp add: expo_def)
  have k0: "0 \<le> ?k" by (rule ilog2_nonneg)
  have "real_of_int (2 ^ nat ?k) \<le> real_of_int ?c" using lo by (simp only: of_int_le_iff)
  moreover have "real_of_int ?c < 1 / x" by linarith
  ultimately have "2 ^ nat ?k < 1 / x" by simp
  then have "x * 2 ^ nat ?k < 1" using assms by (simp add: field_simps)
  then have b: "x < pow2 (- ?k)" using k0
    by (cases "?k = 0") (simp_all add: pow2_def field_simps)
  from hi have "?c + 1 \<le> 2 * 2 ^ nat ?k" by simp
  then have "real_of_int (?c + 1) \<le> real_of_int (2 * 2 ^ nat ?k)" by (simp only: of_int_le_iff)
  moreover have "1 / x \<le> real_of_int (?c + 1)" by simp
  ultimately have "1 / x \<le> real_of_int (2 * 2 ^ nat ?k)" by linarith
  then have "1 / x \<le> 2 * 2 ^ nat ?k" by simp
  then have "1 \<le> x * (2 * 2 ^ nat ?k)" using assms by (simp add: field_simps)
  then have a: "pow2 (- ?k - 1) \<le> x" using k0
    by (simp add: pow2_def nat_add_distrib field_simps)
  from a b e show ?thesis by simp
qed

lemma expo_unique:
  assumes "pow2 k \<le> x" and "x < pow2 (k + 1)"
  shows "expo x = k"
proof -
  from assms(1) have pos: "0 < x" using pow2_pos [of k] by linarith
  from expo_bounds [OF pos] have lo: "pow2 (expo x) \<le> x" and hi: "x < pow2 (expo x + 1)"
    by simp_all
  have "\<not> k < expo x"
  proof
    assume "k < expo x"
    then have "pow2 (k + 1) \<le> pow2 (expo x)" by (intro pow2_mono) simp
    with lo assms(2) show False by linarith
  qed
  moreover have "\<not> expo x < k"
  proof
    assume "expo x < k"
    then have "pow2 (expo x + 1) \<le> pow2 k" by (intro pow2_mono) simp
    with hi assms(1) show False by linarith
  qed
  ultimately show ?thesis by simp
qed

lemma expo_mono:
  assumes "0 < x" and "x \<le> y"
  shows "expo x \<le> expo y"
proof (rule ccontr)
  assume "\<not> expo x \<le> expo y"
  then have "pow2 (expo y + 1) \<le> pow2 (expo x)" by (intro pow2_mono) simp
  moreover from assms have "0 < y" by simp
  from expo_bounds [OF this] have "y < pow2 (expo y + 1)" by simp
  moreover from expo_bounds [OF assms(1)] have "pow2 (expo x) \<le> x" by simp
  ultimately show False using assms(2) by linarith
qed

lemma rne_of_int [simp]: "rne (real_of_int n) = n"
  by (simp add: rne_def)

lemma rne_mono:
  assumes "x \<le> y"
  shows "rne x \<le> rne y"
proof -
  from assms have f: "\<lfloor>x\<rfloor> \<le> \<lfloor>y\<rfloor>" by (rule floor_mono)
  have bx: "\<lfloor>x\<rfloor> \<le> rne x" "rne x \<le> \<lfloor>x\<rfloor> + 1" by (simp_all add: rne_def Let_def)
  have by': "\<lfloor>y\<rfloor> \<le> rne y" "rne y \<le> \<lfloor>y\<rfloor> + 1" by (simp_all add: rne_def Let_def)
  show ?thesis
  proof (cases "\<lfloor>x\<rfloor> = \<lfloor>y\<rfloor>")
    case False
    with f bx by' show ?thesis by linarith
  next
    case True
    with assms have "x - real_of_int \<lfloor>x\<rfloor> \<le> y - real_of_int \<lfloor>y\<rfloor>" by simp
    with True show ?thesis by (auto simp: rne_def Let_def)
  qed
qed

lemma rne_nonneg: "0 \<le> x \<Longrightarrow> 0 \<le> rne x"
  using rne_mono [of 0 x] rne_of_int [of 0] by simp

lemma ulp_pos [simp]: "0 < ulp x"
  by (simp add: ulp_def)

lemma ulp_nonneg [simp]: "0 \<le> ulp x"
  using ulp_pos [of x] by linarith

lemma rval_nonneg:
  assumes "0 \<le> x"
  shows "0 \<le> rval x"
proof -
  from assms have "0 \<le> x / ulp x" by simp
  then have "0 \<le> rne (x / ulp x)" by (rule rne_nonneg)
  then show ?thesis unfolding rval_def by (intro mult_nonneg_nonneg) simp_all
qed

lemma rval_nonpos: "x \<le> 0 \<Longrightarrow> rval x \<le> 0"
proof -
  assume "x \<le> 0"
  then have "x / ulp x \<le> 0" by (simp add: divide_nonpos_pos)
  from rne_mono [OF this] rne_of_int [of 0] have "rne (x / ulp x) \<le> 0" by simp
  then have "real_of_int (rne (x / ulp x)) \<le> 0" by simp
  then show ?thesis unfolding rval_def by (intro mult_nonpos_nonneg) simp_all
qed

text \<open>Rounding is monotone on the positive numbers.\<close>

lemma rval_mono:
  assumes x: "0 < x" and xy: "x \<le> y"
  shows "rval x \<le> rval y"
proof -
  let ?ex = "max (expo \<bar>x\<bar>) (- 1022)" and ?ey = "max (expo \<bar>y\<bar>) (- 1022)"
  from x xy have y: "0 < y" by simp
  have ax: "\<bar>x\<bar> = x" and ay: "\<bar>y\<bar> = y" using x y by simp_all
  from expo_mono [OF x xy] have le: "?ex \<le> ?ey" by (simp add: ax ay)
  show ?thesis
  proof (cases "?ex = ?ey")
    case True
    then have u: "ulp x = ulp y" by (simp add: ulp_def)
    have "x / ulp y \<le> y / ulp y" using xy by (intro divide_right_mono) simp_all
    from rne_mono [OF this] show ?thesis
      by (simp add: rval_def u mult_right_mono)
  next
    case False
    with le have lt: "?ex < ?ey" by linarith
    have "- 1022 \<le> ?ex" by simp
    with lt have "- 1022 < ?ey" by linarith
    then have ey: "?ey = expo y" by (simp add: ay max_def split: if_splits)
    from expo_bounds [OF y] have "pow2 (expo y) \<le> y" by simp
    then have "pow2 ?ey \<le> y" by (simp only: ey)
    then have "pow2 ?ey / ulp y \<le> y / ulp y" by (intro divide_right_mono) simp_all
    moreover have "pow2 ?ey / ulp y = real_of_int (2 ^ 52)"
      by (simp add: ulp_def flip: pow2_diff) (simp add: pow2_def)
    ultimately have "real_of_int (2 ^ 52) \<le> y / ulp y" by simp
    from rne_mono [OF this] have "2 ^ 52 \<le> rne (y / ulp y)" by (simp only: rne_of_int)
    then have "real_of_int (2 ^ 52) \<le> real_of_int (rne (y / ulp y))"
      by (simp only: of_int_le_iff)
    then have "real_of_int (2 ^ 52) * ulp y \<le> rval y"
      by (simp only: rval_def) (rule mult_right_mono, simp_all)
    moreover have "real_of_int (2 ^ 52) * ulp y = pow2 ?ey"
    proof -
      have "pow2 ?ey = pow2 52 * pow2 (?ey - 52)"
        by (rule pow2_split)
      then show ?thesis by (simp add: ulp_def pow2_def)
    qed
    ultimately have hi: "pow2 ?ey \<le> rval y" by simp
    from expo_bounds [OF x] have "x < pow2 (expo x + 1)" by simp
    moreover have "pow2 (expo x + 1) \<le> pow2 (?ex + 1)" by (intro pow2_mono) (simp add: ax)
    ultimately have "x \<le> pow2 (?ex + 1)" by simp
    then have "x / ulp x \<le> pow2 (?ex + 1) / ulp x" by (intro divide_right_mono) simp_all
    moreover have "pow2 (?ex + 1) / ulp x = real_of_int (2 ^ 53)"
      by (simp add: ulp_def flip: pow2_diff) (simp add: pow2_def)
    ultimately have "x / ulp x \<le> real_of_int (2 ^ 53)" by simp
    from rne_mono [OF this] have "rne (x / ulp x) \<le> 2 ^ 53" by (simp only: rne_of_int)
    then have "real_of_int (rne (x / ulp x)) \<le> real_of_int (2 ^ 53)"
      by (simp only: of_int_le_iff)
    then have "rval x \<le> real_of_int (2 ^ 53) * ulp x"
      by (simp only: rval_def) (rule mult_right_mono, simp_all)
    moreover have "real_of_int (2 ^ 53) * ulp x = pow2 (?ex + 1)"
    proof -
      have "pow2 (?ex + 1) = pow2 53 * pow2 (?ex - 52)"
        using pow2_split [of "?ex + 1" 53] by simp
      then show ?thesis by (simp add: ulp_def pow2_def)
    qed
    ultimately have lo: "rval x \<le> pow2 (?ex + 1)" by simp
    from lt have "?ex + 1 \<le> ?ey" by linarith
    then have "pow2 (?ex + 1) \<le> pow2 ?ey" by (rule pow2_mono)
    with lo hi show ?thesis by linarith
  qed
qed

lemma round64_0 [simp]: "round64 0 = Fin 0"
  by (simp add: round64_def)

lemma round64_1 [simp]: "round64 1 = Fin 1"
  by (simp add: round64_eval)

lemma round64_m1 [simp]: "round64 (- 1) = Fin (- 1)"
  by (simp add: round64_eval)

lemma round64_not_NaN [simp]: "round64 x \<noteq> NaN"
  by (simp add: round64_def)

lemma round64_nonneg:
  assumes "0 \<le> x"
  shows "round64 x = PInf \<or> (\<exists>r. round64 x = Fin r \<and> 0 \<le> r)"
  using assms rval_nonneg [OF assms] by (auto simp: round64_def)

lemma round64_nonpos:
  assumes "x \<le> 0"
  shows "round64 x = NInf \<or> (\<exists>r. round64 x = Fin r \<and> r \<le> 0)"
  using assms rval_nonpos [OF assms] by (auto simp: round64_def)

lemma round64_mono_Fin:
  assumes x: "0 \<le> x" and xy: "x \<le> y" and y: "round64 y = Fin s"
  shows "\<exists>r. round64 x = Fin r \<and> 0 \<le> r \<and> r \<le> s"
proof (cases "x = 0")
  case True
  from x xy have "0 \<le> y" by simp
  from round64_nonneg [OF this] y have "0 \<le> s" by auto
  with True show ?thesis by simp
next
  case False
  with x have px: "0 < x" by simp
  with xy have py: "0 < y" by simp
  from rval_mono [OF px xy] have m: "rval x \<le> rval y" .
  have nx: "0 \<le> rval x" using x by (rule rval_nonneg)
  from y py have s: "s = rval y" and fin: "\<not> pow2 1024 \<le> \<bar>rval y\<bar>"
    by (auto simp: round64_def split: if_splits)
  from fin m nx have "\<not> pow2 1024 \<le> \<bar>rval x\<bar>" by simp
  with px have "round64 x = Fin (rval x)" by (simp add: round64_def)
  with m nx s show ?thesis by simp
qed

lemma round64_ge:
  assumes c: "0 \<le> c" and cx: "c \<le> x" and rc: "round64 c = Fin c'"
  shows "round64 x = PInf \<or> (\<exists>r. round64 x = Fin r \<and> c' \<le> r)"
proof -
  from c cx have "0 \<le> x" by simp
  from round64_nonneg [OF this] show ?thesis
  proof
    assume "round64 x = PInf"
    then show ?thesis by simp
  next
    assume "\<exists>r. round64 x = Fin r \<and> 0 \<le> r"
    then obtain s where s: "round64 x = Fin s" by blast
    from round64_mono_Fin [OF c cx s] rc have "c' \<le> s" by simp
    with s show ?thesis by simp
  qed
qed

text \<open>A number in the interval from 0 to 1 is rounded to a number in that interval.\<close>

lemma round64_unit:
  assumes "0 \<le> x" and "x \<le> 1"
  shows "\<exists>r. round64 x = Fin r \<and> 0 \<le> r \<and> r \<le> 1"
  using round64_mono_Fin [OF assms round64_1] .

text \<open>Every float64 value is a multiple of the smallest positive one.\<close>

lemma is_f64_grid:
  assumes "is_f64 r"
  shows "\<exists>n. r = real_of_int n * pow2 (- 1074)"
proof (cases "r = 0")
  case True
  then have "r = real_of_int 0 * pow2 (- 1074)" by simp
  then show ?thesis by blast
next
  case False
  let ?e = "max (expo \<bar>r\<bar>) (- 1022)"
  from assms False have r: "r = rval r"
    by (auto simp: is_f64_def round64_def split: if_splits)
  have ge: "0 \<le> ?e + 1022" by simp
  have "pow2 (?e - 52) = pow2 (?e + 1022) * pow2 (- 1074)"
    using pow2_add [of "?e + 1022" "- 1074"] by simp
  also have "pow2 (?e + 1022) = real_of_int (2 ^ nat (?e + 1022))"
    using ge by (simp only: pow2_def) simp
  finally have "ulp r = real_of_int (2 ^ nat (?e + 1022)) * pow2 (- 1074)"
    by (simp only: ulp_def)
  then have "rval r = real_of_int (rne (r / ulp r) * 2 ^ nat (?e + 1022)) * pow2 (- 1074)"
    by (simp add: rval_def)
  with r show ?thesis by metis
qed

lemma round64_tiny: "round64 (pow2 (- 1074)) = Fin (pow2 (- 1074))"
proof -
  have lt: "pow2 (- 1074) < pow2 (- 1074 + 1)" by (rule pow2_strict_mono) simp
  have "expo (pow2 (- 1074)) = - 1074"
    by (rule expo_unique [OF order_refl lt])
  then have u: "ulp (pow2 (- 1074)) = pow2 (- 1074)"
    by (simp add: ulp_def)
  have "rne 1 = 1" using rne_of_int [of 1] by simp
  then have v: "rval (pow2 (- 1074)) = pow2 (- 1074)"
    by (simp add: rval_def u)
  have "pow2 (- 1074) < pow2 1024" by (rule pow2_strict_mono) simp
  then show ?thesis using pow2_pos [of "- 1074"]
    by (simp add: round64_def v del: pow2_pos)
qed

text \<open>The difference of two distinct float64 values is not rounded to 0.\<close>

lemma f64_diff_pos:
  assumes a: "is_f64 a" and b: "is_f64 b" and lt: "a < b"
  shows "round64 (b - a) = PInf \<or> (\<exists>d. round64 (b - a) = Fin d \<and> 0 < d)"
proof -
  from is_f64_grid [OF a] obtain m where m: "a = real_of_int m * pow2 (- 1074)" by blast
  from is_f64_grid [OF b] obtain n where n: "b = real_of_int n * pow2 (- 1074)" by blast
  from lt m n have "real_of_int m * pow2 (- 1074) < real_of_int n * pow2 (- 1074)" by simp
  then have "real_of_int m < real_of_int n"
    using pow2_pos [of "- 1074"] by (simp only: mult_less_cancel_right_pos)
  then have "m + 1 \<le> n" by simp
  then have "real_of_int (m + 1) \<le> real_of_int n" by (simp only: of_int_le_iff)
  then have "1 \<le> real_of_int n - real_of_int m" by simp
  then have "1 * pow2 (- 1074) \<le> (real_of_int n - real_of_int m) * pow2 (- 1074)"
    by (intro mult_right_mono) simp_all
  then have le: "pow2 (- 1074) \<le> b - a" by (simp add: m n algebra_simps)
  have "0 \<le> pow2 (- 1074)" using pow2_pos [of "- 1074"] by linarith
  from round64_ge [OF this le round64_tiny] show ?thesis
  proof
    assume "round64 (b - a) = PInf"
    then show ?thesis by simp
  next
    assume "\<exists>r. round64 (b - a) = Fin r \<and> pow2 (- 1074) \<le> r"
    then obtain r where r: "round64 (b - a) = Fin r" "pow2 (- 1074) \<le> r" by blast
    from r(2) pow2_pos [of "- 1074"] have "0 < r" by linarith
    with r(1) show ?thesis by simp
  qed
qed

text \<open>Powers of two in the range of float64 are float64 values; from \<open>pow2 1024\<close> on, rounding overflows.\<close>

lemma rval_pow2:
  assumes "- 1022 \<le> k"
  shows "rval (pow2 k) = pow2 k"
proof -
  have lt: "pow2 k < pow2 (k + 1)" by (rule pow2_strict_mono) simp
  have "expo (pow2 k) = k" by (rule expo_unique [OF order_refl lt])
  with assms have u: "ulp (pow2 k) = pow2 (k - 52)" by (simp add: ulp_def)
  have "pow2 k / pow2 (k - 52) = real_of_int (2 ^ 52)"
    by (simp flip: pow2_diff) (simp add: pow2_def)
  then have "rne (pow2 k / pow2 (k - 52)) = 2 ^ 52" by (simp only: rne_of_int)
  then have "rval (pow2 k) = real_of_int (2 ^ 52) * pow2 (k - 52)"
    by (simp only: rval_def u)
  also have "\<dots> = pow2 52 * pow2 (k - 52)" by (simp add: pow2_def)
  also have "\<dots> = pow2 k" by (rule pow2_split [symmetric])
  finally show ?thesis .
qed

lemma round64_pow2:
  assumes "- 1022 \<le> k" and "k < 1024"
  shows "round64 (pow2 k) = Fin (pow2 k)"
proof -
  from assms(2) have "pow2 k < pow2 1024" by (rule pow2_strict_mono)
  moreover have "pow2 k \<noteq> 0" using pow2_pos [of k] by linarith
  ultimately show ?thesis by (simp add: round64_def rval_pow2 [OF assms(1)])
qed

lemma round64_overflow:
  assumes "pow2 1024 \<le> x"
  shows "round64 x = PInf"
proof -
  have p: "0 < pow2 1024" by simp
  from rval_mono [OF p assms] have "pow2 1024 \<le> rval x" by (simp add: rval_pow2)
  moreover from p assms have "0 < x" by linarith
  ultimately show ?thesis by (simp add: round64_def)
qed

text \<open>Rounding commutes with the change of sign.\<close>

lemma rne_minus: "rne (- y) = - rne y"
proof (cases "y = real_of_int \<lfloor>y\<rfloor>")
  case True
  then obtain n where "y = real_of_int n" ..
  then have "rne (- y) = rne (real_of_int (- n))" by simp
  also have "\<dots> = - n" by (rule rne_of_int)
  finally show ?thesis using \<open>y = real_of_int n\<close> by simp
next
  case False
  then have fl: "\<lfloor>- y\<rfloor> = - \<lfloor>y\<rfloor> - 1"
    by (simp add: floor_minus ceiling_altdef)
  from False have lt: "real_of_int \<lfloor>y\<rfloor> < y" by linarith
  show ?thesis
    unfolding rne_def Let_def fl using lt by (auto simp: algebra_simps)
qed

lemma ulp_minus [simp]: "ulp (- x) = ulp x"
  by (simp add: ulp_def)

lemma rval_minus: "rval (- x) = - rval x"
  by (simp add: rval_def rne_minus)

lemma round64_minus_Fin: "round64 x = Fin v \<Longrightarrow> round64 (- x) = Fin (- v)"
  by (auto simp: round64_def rval_minus split: if_splits)

section \<open>Facts about the floating-point operations\<close>

lemma finite_fl_simps [simp]:
  "finite_fl (Fin a)" "\<not> finite_fl NaN" "\<not> finite_fl PInf" "\<not> finite_fl NInf"
  by (simp_all add: finite_fl_def)

lemma finite_flE: "finite_fl v \<Longrightarrow> (\<And>a. v = Fin a \<Longrightarrow> P) \<Longrightarrow> P"
  by (cases v) simp_all

lemma fmin_Fin [simp]: "fmin (Fin a) (Fin b) = Fin (min a b)"
  by (simp add: fmin_def min_def)

lemma fmax_Fin [simp]: "fmax (Fin a) (Fin b) = Fin (max a b)"
  by (simp add: fmax_def max_def)

lemma fmin_choice: "fmin a b = NaN \<or> fmin a b = a \<or> fmin a b = b"
  by (simp add: fmin_def)

lemma fmin_low_D:
  "fmin a b \<noteq> NaN \<Longrightarrow> fmin a b \<noteq> NInf \<Longrightarrow> a \<noteq> NaN \<and> a \<noteq> NInf \<and> b \<noteq> NaN \<and> b \<noteq> NInf"
  by (cases a; cases b) (simp_all add: fmin_def split: if_splits)

lemma fmax_high_D:
  "fmax a b \<noteq> NaN \<Longrightarrow> fmax a b \<noteq> PInf \<Longrightarrow> a \<noteq> NaN \<and> a \<noteq> PInf \<and> b \<noteq> NaN \<and> b \<noteq> PInf"
  by (cases a; cases b) (simp_all add: fmax_def split: if_splits)

lemma foldl_fmin_choice: "foldl fmin v vs = NaN \<or> foldl fmin v vs \<in> set (v # vs)"
proof (induction vs arbitrary: v)
  case Nil
  show ?case by simp
next
  case (Cons u us)
  from Cons.IH [of "fmin v u"] fmin_choice [of v u] show ?case
    by auto
qed

lemma foldl_fmin_low_D:
  "foldl fmin v vs \<noteq> NaN \<Longrightarrow> foldl fmin v vs \<noteq> NInf
   \<Longrightarrow> \<forall>u \<in> set (v # vs). u \<noteq> NaN \<and> u \<noteq> NInf"
proof (induction vs arbitrary: v)
  case Nil
  then show ?case by auto
next
  case (Cons u us)
  from Cons.prems have "foldl fmin (fmin v u) us \<noteq> NaN" "foldl fmin (fmin v u) us \<noteq> NInf"
    by simp_all
  from Cons.IH [OF this] have a: "fmin v u \<noteq> NaN" "fmin v u \<noteq> NInf"
    and b: "\<forall>w \<in> set us. w \<noteq> NaN \<and> w \<noteq> NInf" by auto
  from fmin_low_D [OF a] b show ?case by auto
qed

lemma foldl_fmax_high_D:
  "foldl fmax v vs \<noteq> NaN \<Longrightarrow> foldl fmax v vs \<noteq> PInf
   \<Longrightarrow> \<forall>u \<in> set (v # vs). u \<noteq> NaN \<and> u \<noteq> PInf"
proof (induction vs arbitrary: v)
  case Nil
  then show ?case by auto
next
  case (Cons u us)
  from Cons.prems have "foldl fmax (fmax v u) us \<noteq> NaN" "foldl fmax (fmax v u) us \<noteq> PInf"
    by simp_all
  from Cons.IH [OF this] have a: "fmax v u \<noteq> NaN" "fmax v u \<noteq> PInf"
    and b: "\<forall>w \<in> set us. w \<noteq> NaN \<and> w \<noteq> PInf" by auto
  from fmax_high_D [OF a] b show ?case by auto
qed

lemma np_min_choice: "vs \<noteq> [] \<Longrightarrow> np_min vs = NaN \<or> np_min vs \<in> set vs"
  using foldl_fmin_choice by (cases vs) auto

lemma np_min_max_Fin_finite:
  assumes "np_min vs = Fin mn" and "np_max vs = Fin mx"
  shows "\<forall>u \<in> set vs. finite_fl u"
proof (cases vs)
  case Nil
  then show ?thesis by simp
next
  case (Cons w ws)
  with assms foldl_fmin_low_D [of w ws] foldl_fmax_high_D [of w ws]
  have "\<forall>u \<in> set vs. u \<noteq> NaN \<and> u \<noteq> NInf \<and> u \<noteq> PInf" by auto
  then show ?thesis
    by (auto simp: finite_fl_def split: fl.splits)
qed

text \<open>On finite values the reductions are the minimum and the maximum of the numbers.\<close>

lemma foldl_fmin_Fin: "foldl fmin (Fin a) (map Fin rs) = Fin (Min (set (a # rs)))"
proof (induction rs arbitrary: a)
  case Nil
  show ?case by simp
next
  case (Cons r rs)
  have "Min (set (a # r # rs)) = Min (set (min a r # rs))"
    by (cases "rs = []") (simp_all add: min.assoc)
  with Cons.IH [of "min a r"] show ?case by simp
qed

lemma foldl_fmax_Fin: "foldl fmax (Fin a) (map Fin rs) = Fin (Max (set (a # rs)))"
proof (induction rs arbitrary: a)
  case Nil
  show ?case by simp
next
  case (Cons r rs)
  have "Max (set (a # r # rs)) = Max (set (max a r # rs))"
    by (cases "rs = []") (simp_all add: max.assoc)
  with Cons.IH [of "max a r"] show ?case by simp
qed

lemma np_min_Fin: "rs \<noteq> [] \<Longrightarrow> np_min (map Fin rs) = Fin (Min (set rs))"
  using foldl_fmin_Fin by (cases rs) simp_all

lemma np_max_Fin: "rs \<noteq> [] \<Longrightarrow> np_max (map Fin rs) = Fin (Max (set rs))"
  using foldl_fmax_Fin by (cases rs) simp_all

lemma finite_list_Fin: "\<forall>v \<in> set vs. finite_fl v \<Longrightarrow> \<exists>rs. vs = map Fin rs"
proof (induction vs)
  case Nil
  show ?case by simp
next
  case (Cons v vs)
  then obtain rs where "vs = map Fin rs" by auto
  moreover from Cons.prems obtain a where "v = Fin a" by (auto elim: finite_flE)
  ultimately have "v # vs = map Fin (a # rs)" by simp
  then show ?case by (rule exI)
qed

lemma fsub_NaN_right [simp]: "fsub a NaN = NaN"
  by (cases a) simp_all

lemma fdiv_NaN_right [simp]: "fdiv a NaN = NaN"
  by (cases a) simp_all

lemma fadd_NaN_right [simp]: "fadd a NaN = NaN"
  by (cases a) simp_all

lemma fsub_self: "fsub a a = Fin 0 \<or> fsub a a = NaN"
  by (cases a) simp_all

lemma fdiv_zero: "fdiv (Fin 0) d = Fin 0 \<or> fdiv (Fin 0) d = NaN"
  by (cases d) simp_all

lemma fsub_Fin_D: "fsub u v = Fin y \<Longrightarrow> finite_fl u \<and> finite_fl v"
  by (cases u; cases v) simp_all

lemma fdiv_Fin_nonzero_D:
  "fdiv n d = Fin a \<Longrightarrow> a \<noteq> 0 \<Longrightarrow> finite_fl n \<and> (\<exists>y. d = Fin y \<and> y \<noteq> 0)"
  by (cases n; cases d) (simp_all split: if_splits)

lemma fsq_cases: "(\<exists>s. fsq v = Fin s \<and> 0 \<le> s) \<or> fsq v = PInf \<or> fsq v = NaN"
proof (cases v)
  case (Fin a)
  have "0 \<le> a * a" by simp
  from round64_nonneg [OF this] Fin show ?thesis by auto
qed simp_all

lemma finite_rows_iff: "finite_rows X \<longleftrightarrow> (\<forall>p \<in> set X. finite_fl (fst p) \<and> finite_fl (snd p))"
  by (simp add: finite_rows_def list_all_iff)

lemma f64_fl_finite: "f64_fl v \<Longrightarrow> finite_fl v"
  by (cases v) (simp_all add: f64_fl_def)

lemma f64_rows_iff: "f64_rows X \<longleftrightarrow> (\<forall>p \<in> set X. f64_fl (fst p) \<and> f64_fl (snd p))"
  by (simp add: f64_rows_def list_all_iff)

lemma f64_rows_finite: "f64_rows X \<Longrightarrow> finite_rows X"
  by (auto simp: f64_rows_iff finite_rows_iff intro: f64_fl_finite)

text \<open>Normalisation.\<close>

lemma normalize_Inr:
  "X \<noteq> [] \<Longrightarrow> normalize X =
     Inr (rescale X (np_min (map fst X), np_min (map snd X)) (np_max (map fst X), np_max (map snd X)))"
  by (simp add: normalize_def np_min0_def np_max0_def)

lemma normalize_Nil: "normalize [] = Inl ValueError"
  by (simp add: normalize_def np_min0_def)

lemma length_rescale [simp]: "length (rescale X a b) = length X"
  by (simp add: rescale_def)

lemma rescale_scale1:
  "rescale X x_min x_max =
     map (\<lambda>p. (scale1 (fst x_min) (fst x_max) (fst p), scale1 (snd x_min) (snd x_max) (snd p))) X"
  by (simp add: rescale_def scale1_def)

lemma scale1_in_unit:
  assumes fin: "\<forall>v \<in> set vs. finite_fl v" and v: "v \<in> set vs"
    and d: "fsub (np_max vs) (np_min vs) = Fin y" and y: "0 < y"
  shows "in_unit (scale1 (np_min vs) (np_max vs) v)"
proof -
  from fin obtain rs where rs: "vs = map Fin rs" using finite_list_Fin by blast
  from v rs have ne: "rs \<noteq> []" by auto
  from v rs obtain r where r: "v = Fin r" "r \<in> set rs" by auto
  have mn: "np_min vs = Fin (Min (set rs))" and mx: "np_max vs = Fin (Max (set rs))"
    using rs ne by (simp_all add: np_min_Fin np_max_Fin)
  have lo: "Min (set rs) \<le> r" and hi: "r \<le> Max (set rs)" using r by simp_all
  from d mn mx have dy: "round64 (Max (set rs) - Min (set rs)) = Fin y" by simp
  have "0 \<le> r - Min (set rs)" "r - Min (set rs) \<le> Max (set rs) - Min (set rs)"
    using lo hi by simp_all
  from round64_mono_Fin [OF this dy] obtain a
    where a: "round64 (r - Min (set rs)) = Fin a" "0 \<le> a" "a \<le> y" by blast
  have "0 \<le> a / y" "a / y \<le> 1" using a y by simp_all
  from round64_unit [OF this] obtain q where q: "round64 (a / y) = Fin q" "0 \<le> q" "q \<le> 1"
    by blast
  have "scale1 (np_min vs) (np_max vs) v = Fin q"
    using y a(1) q(1) by (simp add: scale1_def d) (simp add: mn r)
  with q show ?thesis by (simp add: in_unit_def)
qed

lemma in_unit_finite: "in_unit v \<Longrightarrow> finite_fl v"
  by (cases v) (simp_all add: in_unit_def)

lemma constant_list_Fin:
  assumes "vs \<noteq> []" and "\<forall>v \<in> set vs. v = Fin c"
  shows "\<exists>rs. vs = map Fin rs \<and> rs \<noteq> [] \<and> set rs = {c}"
proof (intro exI conjI)
  show "vs = map Fin (replicate (length vs) c)"
    using assms(2) by (intro nth_equalityI) simp_all
  show "replicate (length vs) c \<noteq> []" "set (replicate (length vs) c) = {c}"
    using assms(1) by simp_all
qed

lemma scale1_constant:
  assumes "vs \<noteq> []" and "\<forall>v \<in> set vs. v = Fin c"
  shows "scale1 (np_min vs) (np_max vs) (Fin c) = NaN"
proof -
  from constant_list_Fin [OF assms] obtain rs
    where rs: "vs = map Fin rs" "rs \<noteq> []" "set rs = {c}" by blast
  then have "np_min vs = Fin c" "np_max vs = Fin c"
    by (simp_all add: np_min_Fin np_max_Fin)
  then show ?thesis by (simp add: scale1_def)
qed

text \<open>If one value of a column is scaled to a finite number other than 0, the column is finite.\<close>

lemma scale1_Fin_nonzero_finite:
  assumes "scale1 (np_min vs) (np_max vs) v = Fin a" and "a \<noteq> 0"
  shows "\<forall>u \<in> set vs. finite_fl (scale1 (np_min vs) (np_max vs) u)"
proof
  fix u assume u: "u \<in> set vs"
  from fdiv_Fin_nonzero_D [OF assms [unfolded scale1_def]]
  obtain y where y: "fsub (np_max vs) (np_min vs) = Fin y" "y \<noteq> 0" by blast
  from fsub_Fin_D [OF y(1)] obtain mx mn where m: "np_max vs = Fin mx" "np_min vs = Fin mn"
    by (auto elim!: finite_flE)
  from np_min_max_Fin_finite [OF m(2) m(1)] have fin: "\<forall>u \<in> set vs. finite_fl u" .
  then obtain rs where rs: "vs = map Fin rs" using finite_list_Fin by blast
  from u rs have ne: "rs \<noteq> []" by auto
  have "np_min vs = Fin (Min (set rs))" "np_max vs = Fin (Max (set rs))"
    using rs ne by (simp_all add: np_min_Fin np_max_Fin)
  with y(1) have dy: "round64 (Max (set rs) - Min (set rs)) = Fin y" by simp
  have "Min (set rs) \<le> Max (set rs)" using ne by simp
  then have "0 \<le> Max (set rs) - Min (set rs)" by simp
  from round64_nonneg [OF this] dy have "0 \<le> y" by auto
  with y(2) have "0 < y" by simp
  from scale1_in_unit [OF fin u y(1) this]
  show "finite_fl (scale1 (np_min vs) (np_max vs) u)" by (rule in_unit_finite)
qed

text \<open>
  In a column of float64 numbers with a maximum above the minimum and a finite difference of
  the two, the maximum is scaled to 1.
\<close>

lemma f64_range_pos:
  assumes f64: "\<forall>v \<in> set vs. f64_fl v" and nd: "flt (np_min vs) (np_max vs)"
    and d: "fsub (np_max vs) (np_min vs) = Fin y"
  shows "0 < y"
proof -
  from f64 have "\<forall>v \<in> set vs. finite_fl v" by (auto intro: f64_fl_finite)
  then obtain rs where rs: "vs = map Fin rs" using finite_list_Fin by blast
  from nd have "vs \<noteq> []" by (cases vs) auto
  with rs have ne: "rs \<noteq> []" by auto
  have mn: "np_min vs = Fin (Min (set rs))" and mx: "np_max vs = Fin (Max (set rs))"
    using rs ne by (simp_all add: np_min_Fin np_max_Fin)
  from nd mn mx have lt: "Min (set rs) < Max (set rs)" by simp
  have "Min (set rs) \<in> set rs" "Max (set rs) \<in> set rs" using ne by simp_all
  then have "Fin (Min (set rs)) \<in> set vs" "Fin (Max (set rs)) \<in> set vs"
    using rs by simp_all
  with f64 have "is_f64 (Min (set rs))" "is_f64 (Max (set rs))"
    by (auto simp: f64_fl_def)
  from f64_diff_pos [OF this lt] d mn mx show ?thesis by auto
qed

lemma scale1_max:
  assumes d: "fsub (np_max vs) (np_min vs) = Fin y" and y: "0 < y"
  shows "scale1 (np_min vs) (np_max vs) (np_max vs) = Fin 1"
  using y by (simp add: scale1_def d)

text \<open>The row where a column has its minimum is scaled to 0 or to NaN.\<close>

lemma scale1_min_row:
  assumes "vs \<noteq> []"
  shows "\<exists>v \<in> set vs. scale1 (np_min vs) (np_max vs) v = Fin 0
                     \<or> scale1 (np_min vs) (np_max vs) v = NaN"
proof -
  from np_min_choice [OF assms] show ?thesis
  proof
    assume "np_min vs = NaN"
    moreover from assms obtain v where "v \<in> set vs" by (cases vs) auto
    ultimately show ?thesis by (auto simp: scale1_def)
  next
    assume mem: "np_min vs \<in> set vs"
    from fsub_self [of "np_min vs"] fdiv_zero [of "fsub (np_max vs) (np_min vs)"]
    have "scale1 (np_min vs) (np_max vs) (np_min vs) = Fin 0
          \<or> scale1 (np_min vs) (np_max vs) (np_min vs) = NaN"
      by (auto simp: scale1_def)
    with mem show ?thesis by blast
  qed
qed

section \<open>Facts about the loops\<close>

text \<open>The annotation loop.\<close>

lemma anno_loop_ok:
  "\<forall>i \<in> set is. i < length (digits_target g) \<and> i < length (glob_y g)
   \<Longrightarrow> anno_loop g X is anno = Inr (anno @ map (mk_anno g X) is)"
  by (induction "is" arbitrary: anno) simp_all

lemma anno_loop_err:
  "\<exists>i \<in> set is. length (digits_target g) \<le> i \<or> length (glob_y g) \<le> i
   \<Longrightarrow> anno_loop g X is anno = Inl IndexError"
  by (induction "is" arbitrary: anno) auto

text \<open>The loop over the rows.\<close>

lemma keep_scan_append: "\<exists>ks. keep_scan shown ps = shown @ ks \<and> set ks \<subseteq> set ps"
proof (induction ps arbitrary: shown)
  case Nil
  show ?case by simp
next
  case (Cons p ps)
  show ?case
  proof (cases "flt (np_min (map (sqdist p) shown)) thr")
    case True
    with Cons.IH [of shown] show ?thesis by auto
  next
    case False
    from Cons.IH [of "shown @ [p]"] obtain ks
      where "keep_scan (shown @ [p]) ps = (shown @ [p]) @ ks" "set ks \<subseteq> set ps" by blast
    with False have "keep_scan shown (p # ps) = shown @ (p # ks) \<and> set (p # ks) \<subseteq> set (p # ps)"
      by auto
    then show ?thesis by blast
  qed
qed

lemma keep_scan_length: "length shown \<le> length (keep_scan shown ps)"
  using keep_scan_append [of shown ps] by auto

lemma keep_scan_grown: "keep_scan (shown @ [p]) ps \<noteq> shown"
  using keep_scan_length [of "shown @ [p]" ps] by auto

lemma dedup_loop_ok:
  "\<forall>i \<in> set is. i < length X \<Longrightarrow>
   dedup_loop X is (shown, xy) =
     Inr (keep_scan shown (map ((!) X) is),
          if keep_scan shown (map ((!) X) is) = shown then xy
          else Some (map fst (keep_scan shown (map ((!) X) is)),
                     map snd (keep_scan shown (map ((!) X) is))))"
proof (induction "is" arbitrary: shown xy)
  case Nil
  show ?case by simp
next
  case (Cons i "is")
  from Cons.prems have i: "i < length X" and rest: "\<forall>j \<in> set is. j < length X" by simp_all
  show ?case
  proof (cases "flt (np_min (map (sqdist (X ! i)) shown)) thr")
    case True
    with i Cons.IH [OF rest, of shown xy] show ?thesis by simp
  next
    case False
    let ?s = "shown @ [X ! i]"
    from False i Cons.IH [OF rest, of ?s "Some (map fst ?s, map snd ?s)"] keep_scan_grown [of shown "X ! i" "map ((!) X) is"]
    show ?thesis by (simp del: keep_scan.simps add: keep_scan.simps(2) [of shown "X ! i"]) 
  qed
qed

lemma dedup_loop_err:
  "\<exists>i \<in> set is. length X \<le> i \<Longrightarrow> dedup_loop X is (shown, xy) = Inl IndexError"
  by (induction "is" arbitrary: shown xy) auto

lemma map_nth_upt_take: "n \<le> length X \<Longrightarrow> map ((!) X) [0..<n] = take n X"
  by (intro nth_equalityI) simp_all

lemma dedup_loop_rows:
  assumes "n \<le> length X"
  shows "dedup_loop X [0..<n] ([seed], None) =
           Inr (keep_scan [seed] (take n X),
                if keep_scan [seed] (take n X) = [seed] then None
                else Some (map fst (keep_scan [seed] (take n X)),
                           map snd (keep_scan [seed] (take n X))))"
proof -
  from assms have "\<forall>i \<in> set [0..<n]. i < length X" by simp
  from dedup_loop_ok [OF this, of "[seed]" None] map_nth_upt_take [OF assms]
  show ?thesis by simp
qed

lemma dedup_loop_past_end:
  assumes "length X < n"
  shows "dedup_loop X [0..<n] (shown, xy) = Inl IndexError"
proof (rule dedup_loop_err)
  from assms have "length X \<in> set [0..<n]" by simp
  then show "\<exists>i \<in> set [0..<n]. length X \<le> i" by blast
qed

text \<open>What \<^verbatim>\<open>plot_embedding\<close> returns.\<close>

lemma plot_embedding_rows:
  assumes X: "normalize X = Inr X'"
    and tgt: "length X \<le> length (digits_target g)" and y: "length X \<le> length (glob_y g)"
    and n: "digits_data_shape0 g \<le> length X"
  shows "plot_embedding g X ttl =
     (if keep_scan [seed] (take (digits_data_shape0 g) X') = [seed] then Inl UnboundLocalError
      else Inr (mk_figure (map (mk_anno g X') [0..<length X]) ttl
                  (map fst (keep_scan [seed] (take (digits_data_shape0 g) X')))
                  (map snd (keep_scan [seed] (take (digits_data_shape0 g) X')))))"
proof -
  from X have ne: "X \<noteq> []" by (auto simp: normalize_Nil)
  with X have len: "length X' = length X" by (auto simp: normalize_Inr)
  have "\<forall>i \<in> set [0..<length X']. i < length (digits_target g) \<and> i < length (glob_y g)"
    using tgt y len by auto
  from anno_loop_ok [OF this, of X' "[]"]
  have an: "anno_loop g X' [0..<length X'] [] = Inr (map (mk_anno g X') [0..<length X])"
    by (simp add: len)
  from n len have "digits_data_shape0 g \<le> length X'" by simp
  note dd = dedup_loop_rows [OF this]
  show ?thesis
    by (simp add: plot_embedding_def X an dd)
qed

section \<open>Facts about the kept rows\<close>

text \<open>The order of the values that are not NaN.\<close>

lemma flt_fmin:
  assumes "a \<noteq> NaN" and "b \<noteq> NaN"
  shows "flt (fmin a b) t \<longleftrightarrow> flt a t \<or> flt b t"
  using assms by (cases a; cases b; cases t) (auto simp: fmin_def)

lemma fmin_not_NaN: "a \<noteq> NaN \<Longrightarrow> b \<noteq> NaN \<Longrightarrow> fmin a b \<noteq> NaN"
  by (simp add: fmin_def)

lemma flt_foldl_fmin:
  assumes "v \<noteq> NaN" and "\<forall>u \<in> set vs. u \<noteq> NaN"
  shows "flt (foldl fmin v vs) t \<longleftrightarrow> flt v t \<or> (\<exists>u \<in> set vs. flt u t)"
  using assms
proof (induction vs arbitrary: v)
  case Nil
  show ?case by simp
next
  case (Cons u us)
  from Cons.prems have u: "u \<noteq> NaN" and us: "\<forall>w \<in> set us. w \<noteq> NaN" by simp_all
  from fmin_not_NaN [OF Cons.prems(1) u] have "fmin v u \<noteq> NaN" .
  from Cons.IH [OF this us] flt_fmin [OF Cons.prems(1) u, of t] show ?case by auto
qed

lemma np_min_flt:
  assumes "\<forall>v \<in> set vs. v \<noteq> NaN" and "vs \<noteq> []"
  shows "flt (np_min vs) t \<longleftrightarrow> (\<exists>v \<in> set vs. flt v t)"
proof (cases vs)
  case Nil
  with assms(2) show ?thesis by simp
next
  case (Cons w ws)
  with assms(1) flt_foldl_fmin [of w ws t] show ?thesis by auto
qed

text \<open>The squared distance of two finite points is a number that is not negative, or infinite.\<close>

lemma fsq_Fin_cases: "(\<exists>s. fsq (Fin a) = Fin s \<and> 0 \<le> s) \<or> fsq (Fin a) = PInf"
  using fsq_cases [of "Fin a"] by simp

lemma fsq_finite_arg:
  assumes "finite_fl u \<or> u = PInf \<or> u = NInf"
  shows "(\<exists>s. fsq u = Fin s \<and> 0 \<le> s) \<or> fsq u = PInf"
  using assms fsq_cases [of u] by (cases u) auto

lemma fsub_finite: "finite_fl a \<Longrightarrow> finite_fl b \<Longrightarrow> fsub a b \<noteq> NaN"
  by (cases a; cases b) simp_all

lemma fadd_nonneg:
  assumes "(\<exists>s. a = Fin s \<and> 0 \<le> s) \<or> a = PInf" and "(\<exists>s. b = Fin s \<and> 0 \<le> s) \<or> b = PInf"
  shows "(\<exists>s. fadd a b = Fin s \<and> 0 \<le> s) \<or> fadd a b = PInf"
proof -
  {
    fix s t :: real assume "0 \<le> s" "0 \<le> t"
    then have "0 \<le> s + t" by simp
    from round64_nonneg [OF this] have "(\<exists>r. fadd (Fin s) (Fin t) = Fin r \<and> 0 \<le> r) \<or> fadd (Fin s) (Fin t) = PInf"
      by auto
  }
  with assms show ?thesis by (cases a; cases b) auto
qed

lemma sqdist_finite:
  assumes "finite_fl (fst p)" "finite_fl (snd p)" "finite_fl (fst q)" "finite_fl (snd q)"
  shows "(\<exists>s. sqdist p q = Fin s \<and> 0 \<le> s) \<or> sqdist p q = PInf"
proof -
  have a: "fsub (fst p) (fst q) \<noteq> NaN" and b: "fsub (snd p) (snd q) \<noteq> NaN"
    using assms by (simp_all add: fsub_finite)
  have "(\<exists>s. fsq (fsub (fst p) (fst q)) = Fin s \<and> 0 \<le> s) \<or> fsq (fsub (fst p) (fst q)) = PInf"
    using a by (intro fsq_finite_arg) (cases "fsub (fst p) (fst q)", simp_all)
  moreover have "(\<exists>s. fsq (fsub (snd p) (snd q)) = Fin s \<and> 0 \<le> s) \<or> fsq (fsub (snd p) (snd q)) = PInf"
    using b by (intro fsq_finite_arg) (cases "fsub (snd p) (snd q)", simp_all)
  ultimately show ?thesis unfolding sqdist_def by (rule fadd_nonneg)
qed

lemma sqdist_not_NaN:
  assumes "finite_fl (fst p)" "finite_fl (snd p)" "finite_fl (fst q)" "finite_fl (snd q)"
  shows "sqdist p q \<noteq> NaN"
  using sqdist_finite [OF assms] by auto

text \<open>On finite points the test of the loop asks whether some kept point is too close.\<close>

lemma keep_test_finite:
  assumes "finite_rows shown" and "shown \<noteq> []" and "finite_fl (fst p)" "finite_fl (snd p)"
  shows "flt (np_min (map (sqdist p) shown)) thr \<longleftrightarrow> \<not> list_all (not_below_thr p) shown"
proof -
  have "sqdist p q \<noteq> NaN" if "q \<in> set shown" for q
    using that assms by (intro sqdist_not_NaN) (auto simp: finite_rows_iff)
  then have "\<forall>v \<in> set (map (sqdist p) shown). v \<noteq> NaN" by auto
  moreover have "map (sqdist p) shown \<noteq> []" using assms(2) by simp
  ultimately have "flt (np_min (map (sqdist p) shown)) thr
      \<longleftrightarrow> (\<exists>v \<in> set (map (sqdist p) shown). flt v thr)"
    by (rule np_min_flt)
  then show ?thesis
    by (auto simp: not_below_thr_def list_all_iff)
qed

lemma keep_scan_finite:
  assumes "finite_rows shown" and "shown \<noteq> []" and "finite_rows ps"
  shows "keep_scan shown ps = greedy_keep not_below_thr shown ps"
  using assms
proof (induction ps arbitrary: shown)
  case Nil
  show ?case by simp
next
  case (Cons p ps)
  from Cons.prems have p: "finite_fl (fst p)" "finite_fl (snd p)" and ps: "finite_rows ps"
    by (simp_all add: finite_rows_def)
  from Cons.prems p have ext: "finite_rows (shown @ [p])" "shown @ [p] \<noteq> []"
    by (simp_all add: finite_rows_def)
  from keep_test_finite [OF Cons.prems(1,2) p]
    Cons.IH [OF Cons.prems(1,2) ps] Cons.IH [OF ext ps]
  show ?case by simp
qed

lemma greedy_keep_append:
  "\<exists>ks. greedy_keep far kept ps = kept @ ks \<and> set ks \<subseteq> set ps
        \<and> (\<forall>p \<in> set ks. \<forall>q \<in> set kept. far p q)"
proof (induction ps arbitrary: kept)
  case Nil
  show ?case by simp
next
  case (Cons p ps)
  show ?case
  proof (cases "list_all (far p) kept")
    case False
    with Cons.IH [of kept] show ?thesis by auto
  next
    case True
    from Cons.IH [of "kept @ [p]"] obtain ks
      where ks: "greedy_keep far (kept @ [p]) ps = (kept @ [p]) @ ks" "set ks \<subseteq> set ps"
        "\<forall>r \<in> set ks. \<forall>q \<in> set (kept @ [p]). far r q" by blast
    with True have "greedy_keep far kept (p # ps) = kept @ (p # ks) \<and> set (p # ks) \<subseteq> set (p # ps)
        \<and> (\<forall>r \<in> set (p # ks). \<forall>q \<in> set kept. far r q)"
      by (auto simp: list_all_iff)
    then show ?thesis by blast
  qed
qed

text \<open>The threshold is a number below 1.\<close>

lemma thr_val: "thr = Fin (1152921504606847 / 2 ^ 58)"
  by (simp add: thr_def round64_eval)

lemma thr_below_1: "\<exists>t. thr = Fin t \<and> t < 1"
  by (rule exI [of _ "1152921504606847 / 2 ^ 58"]) (simp add: thr_val)

text \<open>A point with a coordinate 0 or NaN is not within the threshold of the seed.\<close>

lemma sq_diff_0_1: "fsq (fsub (Fin 0) (Fin 1)) = Fin 1"
  by simp

lemma fadd_1_nonneg:
  assumes "(\<exists>s. b = Fin s \<and> 0 \<le> s) \<or> b = PInf \<or> b = NaN"
  shows "\<not> flt (fadd (Fin 1) b) thr" and "\<not> flt (fadd b (Fin 1)) thr"
proof -
  obtain t where t: "thr = Fin t" "t < 1" using thr_below_1 by blast
  {
    fix s :: real assume s: "0 \<le> s"
    have c: "(0::real) \<le> 1" by simp
    from s have "1 \<le> 1 + s" by simp
    from round64_ge [OF c this round64_1] t(2)
    have "\<not> flt (round64 (1 + s)) thr" by (auto simp: t(1))
    moreover from s have "1 \<le> s + 1" by simp
    from round64_ge [OF c this round64_1] t(2)
    have "\<not> flt (round64 (s + 1)) thr" by (auto simp: t(1))
    ultimately have "\<not> flt (fadd (Fin 1) (Fin s)) thr \<and> \<not> flt (fadd (Fin s) (Fin 1)) thr"
      by simp
  }
  with assms show "\<not> flt (fadd (Fin 1) b) thr" and "\<not> flt (fadd b (Fin 1)) thr"
    by (auto simp: t(1))
qed

lemma far_from_seed:
  assumes "fst p = Fin 0 \<or> fst p = NaN \<or> snd p = Fin 0 \<or> snd p = NaN"
  shows "\<not> flt (sqdist p seed) thr"
proof -
  obtain u v where p: "p = (u, v)" by (cases p)
  have cu: "(\<exists>s. fsq (fsub u (Fin 1)) = Fin s \<and> 0 \<le> s) \<or> fsq (fsub u (Fin 1)) = PInf
            \<or> fsq (fsub u (Fin 1)) = NaN"
    by (rule fsq_cases)
  have cv: "(\<exists>s. fsq (fsub v (Fin 1)) = Fin s \<and> 0 \<le> s) \<or> fsq (fsub v (Fin 1)) = PInf
            \<or> fsq (fsub v (Fin 1)) = NaN"
    by (rule fsq_cases)
  from assms p consider "u = Fin 0" | "u = NaN" | "v = Fin 0" | "v = NaN" by auto
  then show ?thesis
  proof cases
    case 1
    with fadd_1_nonneg(1) [OF cv] show ?thesis by (simp add: sqdist_def p seed_def)
  next
    case 2
    then show ?thesis by (simp add: sqdist_def p seed_def)
  next
    case 3
    with fadd_1_nonneg(2) [OF cu] show ?thesis by (simp add: sqdist_def p seed_def)
  next
    case 4
    then show ?thesis by (simp add: sqdist_def p seed_def)
  qed
qed

text \<open>A point within the threshold of the seed has two finite coordinates, neither of them 0.\<close>

lemma near_seed_D:
  assumes near: "flt (sqdist p seed) thr"
  shows "\<exists>a b. p = (Fin a, Fin b) \<and> a \<noteq> 0 \<and> b \<noteq> 0"
proof -
  obtain u v where p: "p = (u, v)" by (cases p)
  have nn: "sqdist p seed \<noteq> NaN" using near by (cases "sqdist p seed") auto
  have "finite_fl u"
  proof (cases u)
    case PInf
    with near show ?thesis
      by (cases "fsq (fsub v (Fin 1))") (simp_all add: sqdist_def p seed_def thr_val)
  next
    case NInf
    with near show ?thesis
      by (cases "fsq (fsub v (Fin 1))") (simp_all add: sqdist_def p seed_def thr_val)
  next
    case NaN
    with near show ?thesis by (simp add: sqdist_def p seed_def)
  qed simp
  moreover have "finite_fl v"
  proof (cases v)
    case PInf
    with near show ?thesis
      by (cases "fsq (fsub u (Fin 1))") (simp_all add: sqdist_def p seed_def thr_val)
  next
    case NInf
    with near show ?thesis
      by (cases "fsq (fsub u (Fin 1))") (simp_all add: sqdist_def p seed_def thr_val)
  next
    case NaN
    with near show ?thesis by (simp add: sqdist_def p seed_def)
  qed simp
  ultimately obtain a b where ab: "u = Fin a" "v = Fin b" by (auto elim!: finite_flE)
  from far_from_seed [of p] near have "fst p \<noteq> Fin 0" "snd p \<noteq> Fin 0" by auto
  with p ab show ?thesis by simp
qed

lemma normalize_near_seed_finite:
  assumes X: "normalize X = Inr X'" and p: "p \<in> set X'" and near: "flt (sqdist p seed) thr"
  shows "finite_rows X'"
proof -
  let ?mn0 = "np_min (map fst X)" and ?mx0 = "np_max (map fst X)"
  let ?mn1 = "np_min (map snd X)" and ?mx1 = "np_max (map snd X)"
  from X have ne: "X \<noteq> []" by (auto simp: normalize_Nil)
  with X have X': "X' = map (\<lambda>r. (scale1 ?mn0 ?mx0 (fst r), scale1 ?mn1 ?mx1 (snd r))) X"
    by (simp add: normalize_Inr rescale_scale1)
  from near_seed_D [OF near] obtain a b where ab: "p = (Fin a, Fin b)" "a \<noteq> 0" "b \<noteq> 0"
    by blast
  from p X' ab obtain r where "scale1 ?mn0 ?mx0 (fst r) = Fin a" "scale1 ?mn1 ?mx1 (snd r) = Fin b"
    by auto
  from scale1_Fin_nonzero_finite [OF this(1) ab(2)] scale1_Fin_nonzero_finite [OF this(2) ab(3)]
  show ?thesis by (auto simp: X' finite_rows_iff)
qed

lemma normalize_far_row:
  assumes X: "normalize X = Inr X'"
  shows "\<exists>p \<in> set X'. \<not> flt (sqdist p seed) thr"
proof -
  let ?mn0 = "np_min (map fst X)" and ?mx0 = "np_max (map fst X)"
  let ?mn1 = "np_min (map snd X)" and ?mx1 = "np_max (map snd X)"
  from X have ne: "X \<noteq> []" by (auto simp: normalize_Nil)
  with X have X': "X' = map (\<lambda>r. (scale1 ?mn0 ?mx0 (fst r), scale1 ?mn1 ?mx1 (snd r))) X"
    by (simp add: normalize_Inr rescale_scale1)
  from ne have "map fst X \<noteq> []" by simp
  from scale1_min_row [OF this] obtain r where r: "r \<in> set X"
    "scale1 ?mn0 ?mx0 (fst r) = Fin 0 \<or> scale1 ?mn0 ?mx0 (fst r) = NaN" by auto
  let ?p = "(scale1 ?mn0 ?mx0 (fst r), scale1 ?mn1 ?mx1 (snd r))"
  from r(1) have "?p \<in> set X'" by (auto simp: X')
  moreover from r(2) have "\<not> flt (sqdist ?p seed) thr" by (intro far_from_seed) auto
  ultimately show ?thesis by blast
qed

lemma keep_scan_unchanged_D:
  "keep_scan shown ps = shown \<Longrightarrow> \<forall>p \<in> set ps. flt (np_min (map (sqdist p) shown)) thr"
proof (induction ps)
  case Nil
  show ?case by simp
next
  case (Cons p ps)
  show ?case
  proof (cases "flt (np_min (map (sqdist p) shown)) thr")
    case True
    with Cons show ?thesis by simp
  next
    case False
    with Cons.prems keep_scan_grown [of shown p ps] show ?thesis by simp
  qed
qed

lemma keep_scan_seed_grows:
  assumes "\<exists>p \<in> set ps. \<not> flt (sqdist p seed) thr"
  shows "keep_scan [seed] ps \<noteq> [seed]"
proof
  assume "keep_scan [seed] ps = [seed]"
  from keep_scan_unchanged_D [OF this] assms show False by simp
qed

text \<open>When every row is far from every point kept before it, every row is kept.\<close>

lemma np_min_not_below:
  assumes "vs \<noteq> []" and "\<forall>v \<in> set vs. \<not> flt v t"
  shows "\<not> flt (np_min vs) t"
  using np_min_choice [OF assms(1)] assms(2) by auto

lemma keep_scan_all:
  assumes "shown \<noteq> []"
    and "\<forall>p \<in> set ps. \<forall>q \<in> set shown. not_below_thr p q"
    and "\<forall>i < length ps. \<forall>j < length ps. i \<noteq> j \<longrightarrow> not_below_thr (ps ! i) (ps ! j)"
  shows "keep_scan shown ps = shown @ ps"
  using assms
proof (induction ps arbitrary: shown)
  case Nil
  show ?case by simp
next
  case (Cons p ps)
  have keep: "\<not> flt (np_min (map (sqdist p) shown)) thr"
    using Cons.prems(1,2) by (intro np_min_not_below) (auto simp: not_below_thr_def)
  have a: "shown @ [p] \<noteq> []" by simp
  have b: "\<forall>r \<in> set ps. \<forall>q \<in> set (shown @ [p]). not_below_thr r q"
  proof (intro ballI)
    fix r q assume r: "r \<in> set ps" and q: "q \<in> set (shown @ [p])"
    from r obtain k where k: "k < length ps" "r = ps ! k" by (auto simp: in_set_conv_nth)
    show "not_below_thr r q"
    proof (cases "q = p")
      case True
      from Cons.prems(3) [rule_format, of "Suc k" 0] k True show ?thesis by simp
    next
      case False
      with q r Cons.prems(2) show ?thesis by auto
    qed
  qed
  have c: "\<forall>i < length ps. \<forall>j < length ps. i \<noteq> j \<longrightarrow> not_below_thr (ps ! i) (ps ! j)"
  proof (intro allI impI)
    fix i j assume "i < length ps" "j < length ps" "i \<noteq> j"
    with Cons.prems(3) [rule_format, of "Suc i" "Suc j"] show "not_below_thr (ps ! i) (ps ! j)"
      by simp
  qed
  from keep Cons.IH [OF a b c] show ?case by simp
qed

lemma far_apart_iff:
  "far_apart far X \<longleftrightarrow> (\<forall>i < length X. \<forall>j < length X. i \<noteq> j \<longrightarrow> far (X ! i) (X ! j))"
  unfolding far_apart_def list_all_iff by (simp add: Ball_def) blast

lemma far_apart_take: "far_apart far X \<Longrightarrow> far_apart far (take n X)"
  by (simp add: far_apart_iff)

text \<open>What a returned figure says about the run.\<close>

lemma plot_embedding_InrD:
  assumes run: "plot_embedding g X ttl = Inr fig"
  obtains X' where "normalize X = Inr X'" and "length X' = length X"
    and "digits_data_shape0 g \<le> length X"
    and "keep_scan [seed] (take (digits_data_shape0 g) X') \<noteq> [seed]"
    and "fig = mk_figure (map (mk_anno g X') [0..<length X]) ttl
                 (map fst (keep_scan [seed] (take (digits_data_shape0 g) X')))
                 (map snd (keep_scan [seed] (take (digits_data_shape0 g) X')))"
    and "length X \<le> length (digits_target g)" and "length X \<le> length (glob_y g)"
proof -
  from run obtain X' where X: "normalize X = Inr X'"
    by (auto simp: plot_embedding_def split: sum.splits)
  then have ne: "X \<noteq> []" by (auto simp: normalize_Nil)
  with X have len: "length X' = length X" by (auto simp: normalize_Inr)
  have lab: "length X \<le> length (digits_target g) \<and> length X \<le> length (glob_y g)"
  proof (rule ccontr)
    assume "\<not> ?thesis"
    then have "length (digits_target g) \<in> set [0..<length X'] \<or> length (glob_y g) \<in> set [0..<length X']"
      using len by auto
    then have "\<exists>i \<in> set [0..<length X']. length (digits_target g) \<le> i \<or> length (glob_y g) \<le> i"
      by blast
    from anno_loop_err [OF this, of X' "[]"] run X show False
      by (simp add: plot_embedding_def)
  qed
  have n: "digits_data_shape0 g \<le> length X"
  proof (rule ccontr)
    assume "\<not> ?thesis"
    then have "length X' < digits_data_shape0 g" using len by simp
    from dedup_loop_past_end [OF this, of "[seed]" None] run X show False
      by (simp add: plot_embedding_def split: sum.splits)
  qed
  from lab have tgt: "length X \<le> length (digits_target g)" and y: "length X \<le> length (glob_y g)"
    by simp_all
  from run plot_embedding_rows [OF X tgt y n, of ttl]
  have "keep_scan [seed] (take (digits_data_shape0 g) X') \<noteq> [seed]"
    and "fig = mk_figure (map (mk_anno g X') [0..<length X]) ttl
                 (map fst (keep_scan [seed] (take (digits_data_shape0 g) X')))
                 (map snd (keep_scan [seed] (take (digits_data_shape0 g) X')))"
    by (auto split: if_splits)
  with X len n tgt y that show ?thesis by blast
qed

lemma markers_mk_figure [simp]: "markers (mk_figure anno ttl (map fst sh) (map snd sh)) = sh"
  by (simp add: markers_def mk_figure_def zip_map_fst_snd)

lemma annotations_mk_figure [simp]: "annotations (fig_layout (mk_figure anno ttl xs ys)) = anno"
  by (simp add: mk_figure_def)

text \<open>A run on all the rows of a non-empty array, with enough labels, returns a figure.\<close>

lemma plot_embedding_returns:
  assumes ne: "X \<noteq> []"
    and tgt: "length X \<le> length (digits_target g)" and y: "length X \<le> length (glob_y g)"
    and n: "digits_data_shape0 g = length X"
  obtains X' where "normalize X = Inr X'" and "length X' = length X"
    and "keep_scan [seed] X' \<noteq> [seed]"
    and "plot_embedding g X ttl =
           Inr (mk_figure (map (mk_anno g X') [0..<length X]) ttl
                  (map fst (keep_scan [seed] X')) (map snd (keep_scan [seed] X')))"
proof -
  from normalize_Inr [OF ne] obtain X' where X: "normalize X = Inr X'" by blast
  with ne have len: "length X' = length X" by (auto simp: normalize_Inr)
  from normalize_far_row [OF X] have grow: "keep_scan [seed] X' \<noteq> [seed]"
    by (rule keep_scan_seed_grows)
  from n have "digits_data_shape0 g \<le> length X" by simp
  from plot_embedding_rows [OF X tgt y this, of ttl] grow n len
  have "plot_embedding g X ttl =
           Inr (mk_figure (map (mk_anno g X') [0..<length X]) ttl
                  (map fst (keep_scan [seed] X')) (map snd (keep_scan [seed] X')))"
    by simp
  with X len grow that show ?thesis by blast
qed

section \<open>Properties of the normalisation\<close>

lemma pow2_1023: "pow2 1023 = 2 ^ 1023"
  by (simp add: pow2_def)

lemma round64_2p1023: "round64 (2 ^ 1023) = Fin (2 ^ 1023)"
proof -
  have "round64 (pow2 1023) = Fin (pow2 1023)" by (rule round64_pow2) simp_all
  then show ?thesis by (simp only: pow2_1023)
qed

lemma round64_m2p1023: "round64 (- (2 ^ 1023)) = Fin (- (2 ^ 1023))"
  by (rule round64_minus_Fin [OF round64_2p1023])

lemma round64_2p1024: "round64 (2 ^ 1023 + 2 ^ 1023) = PInf"
proof -
  have "pow2 1024 = 2 ^ 1023 + 2 ^ 1023" by (simp add: pow2_def)
  then have "pow2 1024 \<le> 2 ^ 1023 + 2 ^ 1023" by (simp only: order_refl)
  then show ?thesis by (rule round64_overflow)
qed

lemmas round64_extreme =
  round64_2p1023 [simplified] round64_m2p1023 [simplified] round64_2p1024 [simplified]

text \<open>
  C2, as stated, fails: the difference \<^verbatim>\<open>x_max - x_min\<close> can overflow. The two rows
  \<open>(-2^1023, 0)\<close> and \<open>(2^1023, 1)\<close> are float64 numbers without NaN or infinity and both
  columns have a maximum above the minimum, yet the first coordinate of the second row is
  normalised to NaN: the difference of the column is infinite, and the row is infinity
  divided by infinity.
\<close>

theorem normalize_overflow_counterexample:
  "f64_rows [(Fin (- (2 ^ 1023)), Fin 0), (Fin (2 ^ 1023), Fin 1)]
   \<and> flt (np_min (map fst [(Fin (- (2 ^ 1023)), Fin 0), (Fin (2 ^ 1023), Fin 1)]))
          (np_max (map fst [(Fin (- (2 ^ 1023)), Fin 0), (Fin (2 ^ 1023), Fin 1)]))
   \<and> flt (np_min (map snd [(Fin (- (2 ^ 1023)), Fin 0), (Fin (2 ^ 1023), Fin 1)]))
          (np_max (map snd [(Fin (- (2 ^ 1023)), Fin 0), (Fin (2 ^ 1023), Fin 1)]))
   \<and> normalize [(Fin (- (2 ^ 1023)), Fin 0), (Fin (2 ^ 1023), Fin 1)]
       = Inr [(Fin 0, Fin 0), (NaN, Fin 1)]
   \<and> \<not> in_unit NaN"
  by (simp add: f64_rows_def f64_fl_def is_f64_def round64_extreme
        normalize_def np_min0_def np_max0_def rescale_def in_unit_def)

text \<open>
  C2, amended. For an input of at least two rows whose entries are float64 numbers (no NaN,
  no infinity), whose two columns each have a maximum above the minimum and a difference
  \<^verbatim>\<open>x_max - x_min\<close> that does not overflow to infinity, the normalisation step returns one row
  per input row, and every coordinate of it, the rounded quotient of the rounded
  differences, lies in the closed interval from 0 to 1.
\<close>

theorem normalize_in_unit:
  assumes f64: "f64_rows X" and n: "2 \<le> length X"
    and nd0: "flt (np_min (map fst X)) (np_max (map fst X))"
    and nd1: "flt (np_min (map snd X)) (np_max (map snd X))"
    and fin0: "finite_fl (fsub (np_max (map fst X)) (np_min (map fst X)))"
    and fin1: "finite_fl (fsub (np_max (map snd X)) (np_min (map snd X)))"
  shows "\<exists>X'. normalize X = Inr X' \<and> length X' = length X
              \<and> (\<forall>p \<in> set X'. in_unit (fst p) \<and> in_unit (snd p))"
proof -
  let ?X' = "rescale X (np_min (map fst X), np_min (map snd X))
                       (np_max (map fst X), np_max (map snd X))"
  from n have ne: "X \<noteq> []" by auto
  have run: "normalize X = Inr ?X'" by (rule normalize_Inr [OF ne])
  have g0: "\<forall>v \<in> set (map fst X). f64_fl v" and g1: "\<forall>v \<in> set (map snd X). f64_fl v"
    using f64 by (auto simp: f64_rows_iff)
  then have f0: "\<forall>v \<in> set (map fst X). finite_fl v" and f1: "\<forall>v \<in> set (map snd X). finite_fl v"
    by (auto intro: f64_fl_finite)
  from fin0 obtain y0 where y0: "fsub (np_max (map fst X)) (np_min (map fst X)) = Fin y0"
    by (auto elim: finite_flE)
  from fin1 obtain y1 where y1: "fsub (np_max (map snd X)) (np_min (map snd X)) = Fin y1"
    by (auto elim: finite_flE)
  from f64_range_pos [OF g0 nd0 y0] have p0: "0 < y0" .
  from f64_range_pos [OF g1 nd1 y1] have p1: "0 < y1" .
  have "in_unit (fst q) \<and> in_unit (snd q)" if "q \<in> set ?X'" for q
  proof -
    from that obtain p where p: "p \<in> set X"
      and q: "q = (scale1 (np_min (map fst X)) (np_max (map fst X)) (fst p),
                   scale1 (np_min (map snd X)) (np_max (map snd X)) (snd p))"
      by (auto simp: rescale_scale1)
    from p have "fst p \<in> set (map fst X)" "snd p \<in> set (map snd X)" by simp_all
    with scale1_in_unit [OF f0 _ y0 p0] scale1_in_unit [OF f1 _ y1 p1] q show ?thesis by simp
  qed
  with run show ?thesis by simp
qed

theorem normalize_in_unit_witness:
  "f64_rows [(Fin 2, Fin 10), (Fin 4, Fin 5), (Fin 3, Fin 20)]
   \<and> normalize [(Fin 2, Fin 10), (Fin 4, Fin 5), (Fin 3, Fin 20)]
       = Inr [(Fin 0, Fin (6004799503160661 / 2 ^ 54)), (Fin 1, Fin 0), (Fin (1 / 2), Fin 1)]
   \<and> in_unit (Fin (6004799503160661 / 2 ^ 54)) \<and> in_unit (Fin (1 / 2))
   \<and> in_unit (Fin 0) \<and> in_unit (Fin 1)"
proof -
  let ?X = "[(Fin 2, Fin 10), (Fin 4, Fin 5), (Fin 3, Fin 20)]"
  have a: "f64_rows ?X"
    by (simp add: f64_rows_def f64_fl_def is_f64_def round64_eval)
  have b: "normalize ?X
       = Inr [(Fin 0, Fin (6004799503160661 / 2 ^ 54)), (Fin 1, Fin 0), (Fin (1 / 2), Fin 1)]"
    by (simp add: normalize_def np_min0_def np_max0_def rescale_def round64_eval)
  have c: "flt (np_min (map fst ?X)) (np_max (map fst ?X))"
    "flt (np_min (map snd ?X)) (np_max (map snd ?X))" by simp_all
  have d: "finite_fl (fsub (np_max (map fst ?X)) (np_min (map fst ?X)))"
    "finite_fl (fsub (np_max (map snd ?X)) (np_min (map snd ?X)))"
    by (simp_all add: round64_eval)
  from normalize_in_unit [OF a _ c d] b show ?thesis
    using a by (simp add: in_unit_def)
qed

text \<open>
  C7, as stated, fails: with one row both columns are constant, the scaling divides 0 by 0 and
  the coordinates of the annotation and of the marker are NaN, which is not a finite number.
\<close>

theorem constant_column_counterexample:
  "normalize [(Fin 5, Fin 7)] = Inr [(NaN, NaN)]
   \<and> \<not> finite_fl NaN
   \<and> plot_embedding
        \<lparr>digits_data_shape0 = 1, digits_target = [3], glob_y = [3],
         cm_Set1 = (\<lambda>v. (v, v, v, 1))\<rparr>
        [(Fin 5, Fin 7)] None
       = Inr (mk_figure
               [\<lparr>anno_x = NaN, anno_y = NaN, anno_text = ''3'', showarrow = False,
                 font_size = 11, font_color = RgbStr (3 / 10) (3 / 10) (3 / 10)\<rparr>]
               None [Fin 1, NaN] [Fin 1, NaN])"
  by (simp add: plot_embedding_def normalize_def np_min0_def np_max0_def rescale_def
        mk_anno_def sqdist_def thr_def seed_def str_int_def str_nat.simps digit_char_def)

text \<open>
  C7, amended. The scaling step has no guard: when a column of \<open>X\<close> is constant (a finite
  value \<open>c\<close> in every row, as with a single row), \<^verbatim>\<open>x_max - x_min\<close> is 0 in that column,
  every entry is 0 divided by 0, and the column of the normalised rows is NaN throughout. No
  exception is raised.
\<close>

theorem constant_column_nan:
  assumes ne: "X \<noteq> []"
  shows "\<exists>X'. normalize X = Inr X' \<and> length X' = length X
          \<and> ((\<forall>p \<in> set X. fst p = Fin c) \<longrightarrow> (\<forall>q \<in> set X'. fst q = NaN))
          \<and> ((\<forall>p \<in> set X. snd p = Fin d) \<longrightarrow> (\<forall>q \<in> set X'. snd q = NaN))"
proof -
  let ?X' = "rescale X (np_min (map fst X), np_min (map snd X))
                       (np_max (map fst X), np_max (map snd X))"
  have run: "normalize X = Inr ?X'" by (rule normalize_Inr [OF ne])
  have c0: "\<forall>q \<in> set ?X'. fst q = NaN" if "\<forall>p \<in> set X. fst p = Fin c"
  proof -
    from that have "\<forall>v \<in> set (map fst X). v = Fin c" by simp
    from scale1_constant [OF _ this] ne that show ?thesis
      by (auto simp: rescale_scale1)
  qed
  have c1: "\<forall>q \<in> set ?X'. snd q = NaN" if "\<forall>p \<in> set X. snd p = Fin d"
  proof -
    from that have "\<forall>v \<in> set (map snd X). v = Fin d" by simp
    from scale1_constant [OF _ this] ne that show ?thesis
      by (auto simp: rescale_scale1)
  qed
  from run c0 c1 show ?thesis by simp
qed

theorem constant_column_nan_witness:
  "[(Fin 5, Fin 7), (Fin 5, Fin 9)] \<noteq> []
   \<and> normalize [(Fin 5, Fin 7), (Fin 5, Fin 9)] = Inr [(NaN, Fin 0), (NaN, Fin 1)]
   \<and> normalize [(Fin 5, Fin 7)] = Inr [(NaN, NaN)]"
  using constant_column_nan [of "[(Fin 5, Fin 7), (Fin 5, Fin 9)]" 5 7]
    constant_column_nan [of "[(Fin 5, Fin 7)]" 5 7]
  by (simp add: normalize_def np_min0_def np_max0_def rescale_def round64_eval)

section \<open>Properties of the markers\<close>

text \<open>
  C1, as stated, fails. The scan does not start from an empty set of kept points but from
  the point \<open>(1, 1)\<close>: for the rows \<open>(0, 0)\<close>, \<open>(2, 2)\<close>, \<open>(2, 0)\<close>, which normalise to \<open>(0, 0)\<close>,
  \<open>(1, 1)\<close>, \<open>(1, 0)\<close>, the greedy scan of the specification keeps all three rows in their
  order, while the markers of the figure are \<open>(1, 1)\<close>, \<open>(0, 0)\<close>, \<open>(1, 0)\<close>: the second row
  is dropped and the first marker is no row of the scan.
\<close>

theorem dedup_scan_counterexample:
  "normalize [(Fin 0, Fin 0), (Fin 2, Fin 2), (Fin 2, Fin 0)]
     = Inr [(Fin 0, Fin 0), (Fin 1, Fin 1), (Fin 1, Fin 0)]
   \<and> greedy_keep exceeds_thr [] [(Fin 0, Fin 0), (Fin 1, Fin 1), (Fin 1, Fin 0)]
     = [(Fin 0, Fin 0), (Fin 1, Fin 1), (Fin 1, Fin 0)]
   \<and> result_markers (plot_embedding
        \<lparr>digits_data_shape0 = 3, digits_target = [0, 1, 2], glob_y = [0, 1, 2],
         cm_Set1 = (\<lambda>v. (v, v, v, 1))\<rparr>
        [(Fin 0, Fin 0), (Fin 2, Fin 2), (Fin 2, Fin 0)] None)
     = Inr [(Fin 1, Fin 1), (Fin 0, Fin 0), (Fin 1, Fin 0)]"
  by (simp add: plot_embedding_def normalize_def np_min0_def np_max0_def rescale_def
        exceeds_thr_def thr_val sqdist_def seed_def result_markers_def markers_def
        mk_figure_def upt_rec round64_eval)

text \<open>
  C1, amended. The scan visits the first \<^verbatim>\<open>digits.data.shape[0]\<close> rows of the normalised
  input in their order, starting from the kept list that holds the point \<open>(1, 1)\<close>. On finite
  coordinates it keeps a row if and only if its squared distance from every point kept before
  it, the point \<open>(1, 1)\<close> included, is not below the threshold, where the distance is the one
  the loop computes in float64 (the rounded sum of the rounded squares of the rounded
  differences) and the threshold is the float64 value of \<^verbatim>\<open>4e-3\<close>. The markers are the kept
  list: the point \<open>(1, 1)\<close>, then the kept rows in the order of the rows.
\<close>

theorem dedup_scan_seeded:
  assumes "normalize X = Inr X'" and "finite_rows X'" and "plot_embedding g X ttl = Inr fig"
  shows "markers fig = greedy_keep not_below_thr [seed] (take (digits_data_shape0 g) X')"
proof -
  from assms(3) obtain Y where Y: "normalize X = Inr Y"
    and fig: "fig = mk_figure (map (mk_anno g Y) [0..<length X]) ttl
                 (map fst (keep_scan [seed] (take (digits_data_shape0 g) Y)))
                 (map snd (keep_scan [seed] (take (digits_data_shape0 g) Y)))"
    by (rule plot_embedding_InrD)
  from Y assms(1) have eq: "Y = X'" by simp
  have "finite_rows (take (digits_data_shape0 g) X')"
    using assms(2) by (auto simp: finite_rows_iff dest: in_set_takeD)
  moreover have "finite_rows [seed]" "[seed] \<noteq> []"
    by (simp_all add: finite_rows_def seed_def)
  ultimately have "keep_scan [seed] (take (digits_data_shape0 g) X')
      = greedy_keep not_below_thr [seed] (take (digits_data_shape0 g) X')"
    by (intro keep_scan_finite)
  with fig eq show ?thesis by simp
qed

theorem dedup_scan_seeded_witness:
  "normalize [(Fin 0, Fin 0), (Fin 2, Fin 2), (Fin 2, Fin 0)]
     = Inr [(Fin 0, Fin 0), (Fin 1, Fin 1), (Fin 1, Fin 0)]
   \<and> finite_rows [(Fin 0, Fin 0), (Fin 1, Fin 1), (Fin 1, Fin 0)]
   \<and> plot_embedding
        \<lparr>digits_data_shape0 = 3, digits_target = [0, 1, 2], glob_y = [0, 1, 2],
         cm_Set1 = (\<lambda>v. (v, v, v, 1))\<rparr>
        [(Fin 0, Fin 0), (Fin 2, Fin 2), (Fin 2, Fin 0)] None
     = Inr (mk_figure
        [\<lparr>anno_x = Fin 0, anno_y = Fin 0, anno_text = ''0'', showarrow = False,
          font_size = 11, font_color = RgbStr 0 0 0\<rparr>,
         \<lparr>anno_x = Fin 1, anno_y = Fin 1, anno_text = ''1'', showarrow = False,
          font_size = 11, font_color = RgbStr (1 / 10) (1 / 10) (1 / 10)\<rparr>,
         \<lparr>anno_x = Fin 1, anno_y = Fin 0, anno_text = ''2'', showarrow = False,
          font_size = 11, font_color = RgbStr (2 / 10) (2 / 10) (2 / 10)\<rparr>]
        None [Fin 1, Fin 0, Fin 1] [Fin 1, Fin 0, Fin 0])
   \<and> greedy_keep not_below_thr [seed] (take 3 [(Fin 0, Fin 0), (Fin 1, Fin 1), (Fin 1, Fin 0)])
     = [(Fin 1, Fin 1), (Fin 0, Fin 0), (Fin 1, Fin 0)]"
proof -
  let ?g = "\<lparr>digits_data_shape0 = 3, digits_target = [0, 1, 2], glob_y = [0, 1, 2],
         cm_Set1 = (\<lambda>v. (v, v, v, 1))\<rparr>"
  let ?X = "[(Fin 0, Fin 0), (Fin 2, Fin 2), (Fin 2, Fin 0)]"
  let ?X' = "[(Fin 0, Fin 0), (Fin 1, Fin 1), (Fin 1, Fin 0)]"
  let ?fig = "mk_figure
        [\<lparr>anno_x = Fin 0, anno_y = Fin 0, anno_text = ''0'', showarrow = False,
          font_size = 11, font_color = RgbStr 0 0 0\<rparr>,
         \<lparr>anno_x = Fin 1, anno_y = Fin 1, anno_text = ''1'', showarrow = False,
          font_size = 11, font_color = RgbStr (1 / 10) (1 / 10) (1 / 10)\<rparr>,
         \<lparr>anno_x = Fin 1, anno_y = Fin 0, anno_text = ''2'', showarrow = False,
          font_size = 11, font_color = RgbStr (2 / 10) (2 / 10) (2 / 10)\<rparr>]
        None [Fin 1, Fin 0, Fin 1] [Fin 1, Fin 0, Fin 0]"
  have a: "normalize ?X = Inr ?X'"
    by (simp add: normalize_def np_min0_def np_max0_def rescale_def round64_eval)
  have b: "finite_rows ?X'" by (simp add: finite_rows_def)
  have c: "plot_embedding ?g ?X None = Inr ?fig"
    by (simp add: plot_embedding_def a thr_val sqdist_def seed_def mk_anno_def upt_rec
          str_int_def str_nat.simps digit_char_def round64_eval)
  from dedup_scan_seeded [OF a b c]
  have "greedy_keep not_below_thr [seed] (take 3 ?X') = markers ?fig" by simp
  also have "\<dots> = [(Fin 1, Fin 1), (Fin 0, Fin 0), (Fin 1, Fin 0)]"
    by (simp add: markers_def mk_figure_def)
  finally show ?thesis using a b c by simp
qed

text \<open>
  The test is decided by the rounded values. The rows \<open>(0, 0)\<close>, \<open>(650, 650)\<close>, \<open>(3, 41)\<close>
  normalise to \<open>(0, 0)\<close>, \<open>(1, 1)\<close> and the float64 quotients \<^verbatim>\<open>3/650.\<close>, \<^verbatim>\<open>41/650.\<close>; the squared
  distance of the last row from \<open>(0, 0)\<close> is computed as \<open>4611686018427387 / 2 ^ 60\<close>, one unit
  in the last place below the threshold \<open>1152921504606847 / 2 ^ 58\<close>, so the row is dropped
  (the exact value of \<open>(3 / 650)\<^sup>2 + (41 / 650)\<^sup>2\<close> is \<open>4 / 1000\<close>).
\<close>

lemma normalize_650:
  "normalize [(Fin 0, Fin 0), (Fin 650, Fin 650), (Fin 3, Fin 41)]
     = Inr [(Fin 0, Fin 0), (Fin 1, Fin 1),
            (Fin (5321176175108525 / 2 ^ 60), Fin (4545171316238531 / 2 ^ 56))]"
  by (simp add: normalize_def np_min0_def np_max0_def rescale_def round64_eval)

lemma sqdist_650:
  "sqdist (Fin (5321176175108525 / 2 ^ 60), Fin (4545171316238531 / 2 ^ 56)) (Fin 0, Fin 0)
     = Fin (4611686018427387 / 2 ^ 60)
   \<and> thr = Fin (4611686018427388 / 2 ^ 60)"
  by (simp add: sqdist_def thr_val round64_eval)

lemma markers_650:
  "result_markers (plot_embedding
        \<lparr>digits_data_shape0 = 3, digits_target = [0, 1, 2], glob_y = [0, 1, 2],
         cm_Set1 = (\<lambda>v. (v, v, v, 1))\<rparr>
        [(Fin 0, Fin 0), (Fin 650, Fin 650), (Fin 3, Fin 41)] None)
     = Inr [(Fin 1, Fin 1), (Fin 0, Fin 0)]"
  by (simp add: plot_embedding_def normalize_650 thr_val sqdist_def seed_def result_markers_def
        markers_def mk_figure_def upt_rec round64_eval)

text \<open>
  C9, as stated, fails in three ways. Not every input gives a marker trace: when
  \<^verbatim>\<open>digits.data\<close> has one row and the first row of \<open>X\<close> is normalised to \<open>(1, 1)\<close>, the scan
  keeps no row and the function raises UnboundLocalError. A row whose exact squared distance
  from \<open>(1, 1)\<close> is below 4/1000 can be a marker: for the row
  \<open>(2166907717829981 / 2^51, 243 / 256)\<close> the distance that the loop computes in float64 is
  the float64 value of \<^verbatim>\<open>4e-3\<close>, which is not below the threshold. And the row that has the
  maximum of both columns is a marker when the difference \<^verbatim>\<open>x_max - x_min\<close> overflows: its
  coordinates are NaN.
\<close>

theorem seed_marker_counterexample:
  "plot_embedding
      \<lparr>digits_data_shape0 = 1, digits_target = [0, 1], glob_y = [0, 1],
       cm_Set1 = (\<lambda>v. (v, v, v, 1))\<rparr>
      [(Fin 1, Fin 1), (Fin 0, Fin 0)] None
     = Inl UnboundLocalError
   \<and> result_markers (plot_embedding
      \<lparr>digits_data_shape0 = 4, digits_target = [0, 1, 2, 3], glob_y = [0, 1, 2, 3],
       cm_Set1 = (\<lambda>v. (v, v, v, 1))\<rparr>
      [(Fin 0, Fin 0), (Fin 1, Fin 0), (Fin 0, Fin 1),
       (Fin (2166907717829981 / 2 ^ 51), Fin (243 / 256))] None)
     = Inr [(Fin 1, Fin 1), (Fin 0, Fin 0), (Fin 1, Fin 0), (Fin 0, Fin 1),
            (Fin (2166907717829981 / 2 ^ 51), Fin (243 / 256))]
   \<and> (2166907717829981 / 2 ^ 51 - 1) * (2166907717829981 / 2 ^ 51 - 1)
       + (243 / 256 - 1) * (243 / 256 - 1) < (4 / 1000 :: real)
   \<and> result_markers (plot_embedding
      \<lparr>digits_data_shape0 = 2, digits_target = [0, 1], glob_y = [0, 1],
       cm_Set1 = (\<lambda>v. (v, v, v, 1))\<rparr>
      [(Fin (- (2 ^ 1023)), Fin (- (2 ^ 1023))), (Fin (2 ^ 1023), Fin (2 ^ 1023))] None)
     = Inr [(Fin 1, Fin 1), (Fin 0, Fin 0), (NaN, NaN)]"
proof (intro conjI)
  show "plot_embedding
      \<lparr>digits_data_shape0 = 1, digits_target = [0, 1], glob_y = [0, 1],
       cm_Set1 = (\<lambda>v. (v, v, v, 1))\<rparr>
      [(Fin 1, Fin 1), (Fin 0, Fin 0)] None
     = Inl UnboundLocalError"
    by (simp add: plot_embedding_def normalize_def np_min0_def np_max0_def rescale_def
          thr_val sqdist_def seed_def mk_anno_def upt_rec round64_eval)
  have n: "normalize [(Fin 0, Fin 0), (Fin 1, Fin 0), (Fin 0, Fin 1),
       (Fin (2166907717829981 / 2 ^ 51), Fin (243 / 256))]
     = Inr [(Fin 0, Fin 0), (Fin 1, Fin 0), (Fin 0, Fin 1),
       (Fin (2166907717829981 / 2 ^ 51), Fin (243 / 256))]"
    by (simp add: normalize_def np_min0_def np_max0_def rescale_def round64_eval)
  show "result_markers (plot_embedding
      \<lparr>digits_data_shape0 = 4, digits_target = [0, 1, 2, 3], glob_y = [0, 1, 2, 3],
       cm_Set1 = (\<lambda>v. (v, v, v, 1))\<rparr>
      [(Fin 0, Fin 0), (Fin 1, Fin 0), (Fin 0, Fin 1),
       (Fin (2166907717829981 / 2 ^ 51), Fin (243 / 256))] None)
     = Inr [(Fin 1, Fin 1), (Fin 0, Fin 0), (Fin 1, Fin 0), (Fin 0, Fin 1),
            (Fin (2166907717829981 / 2 ^ 51), Fin (243 / 256))]"
    by (simp add: plot_embedding_def n [simplified] thr_val sqdist_def seed_def
          result_markers_def markers_def mk_figure_def upt_rec round64_eval)
  show "(2166907717829981 / 2 ^ 51 - 1) * (2166907717829981 / 2 ^ 51 - 1)
       + (243 / 256 - 1) * (243 / 256 - 1) < (4 / 1000 :: real)"
    by simp
  have m: "normalize [(Fin (- (2 ^ 1023)), Fin (- (2 ^ 1023))), (Fin (2 ^ 1023), Fin (2 ^ 1023))]
     = Inr [(Fin 0, Fin 0), (NaN, NaN)]"
    by (simp add: round64_extreme normalize_def np_min0_def np_max0_def rescale_def)
  show "result_markers (plot_embedding
      \<lparr>digits_data_shape0 = 2, digits_target = [0, 1], glob_y = [0, 1],
       cm_Set1 = (\<lambda>v. (v, v, v, 1))\<rparr>
      [(Fin (- (2 ^ 1023)), Fin (- (2 ^ 1023))), (Fin (2 ^ 1023), Fin (2 ^ 1023))] None)
     = Inr [(Fin 1, Fin 1), (Fin 0, Fin 0), (NaN, NaN)]"
    by (simp add: plot_embedding_def m [simplified] thr_val sqdist_def seed_def fmin_def
          result_markers_def markers_def mk_figure_def upt_rec round64_eval)
qed

text \<open>
  C9, amended. Whenever \<^verbatim>\<open>plot_embedding\<close> returns a figure, its first marker is the point
  \<open>(1, 1)\<close> that the scan starts from, which is no row of the input; the other markers are
  rows of the normalised input, and no row whose squared distance from \<open>(1, 1)\<close>, as the loop
  computes it in float64, is below the float64 value of \<^verbatim>\<open>4e-3\<close> is among them. On an input
  of float64 numbers whose two columns each have a maximum above the minimum and a finite
  difference \<^verbatim>\<open>x_max - x_min\<close>, a row that has the maximum of both columns is normalised to
  \<open>(1, 1)\<close> and so is not among them.
\<close>

theorem seed_marker_first:
  assumes run: "plot_embedding g X ttl = Inr fig"
  shows "\<exists>X' kept. normalize X = Inr X' \<and> markers fig = seed # kept \<and> set kept \<subseteq> set X'
           \<and> (\<forall>p \<in> set X'. flt (sqdist p seed) thr \<longrightarrow> p \<notin> set kept)
           \<and> (f64_rows X \<and> flt (np_min (map fst X)) (np_max (map fst X))
                \<and> flt (np_min (map snd X)) (np_max (map snd X))
                \<and> finite_fl (fsub (np_max (map fst X)) (np_min (map fst X)))
                \<and> finite_fl (fsub (np_max (map snd X)) (np_min (map snd X)))
                \<and> (np_max (map fst X), np_max (map snd X)) \<in> set X
              \<longrightarrow> seed \<in> set X' \<and> seed \<notin> set kept)"
proof -
  let ?n = "digits_data_shape0 g"
  from run obtain X' where X: "normalize X = Inr X'"
    and fig: "fig = mk_figure (map (mk_anno g X') [0..<length X]) ttl
                 (map fst (keep_scan [seed] (take ?n X')))
                 (map snd (keep_scan [seed] (take ?n X')))"
    by (rule plot_embedding_InrD)
  from keep_scan_append [of "[seed]" "take ?n X'"] obtain kept
    where kept: "keep_scan [seed] (take ?n X') = seed # kept" "set kept \<subseteq> set (take ?n X')"
    by auto
  have sub: "set kept \<subseteq> set X'" using kept(2) set_take_subset [of ?n X'] by blast
  have "markers fig = keep_scan [seed] (take ?n X')" by (simp only: fig markers_mk_figure)
  with kept(1) have mk: "markers fig = seed # kept" by simp
  have excl: "p \<notin> set kept" if p: "p \<in> set X'" and near: "flt (sqdist p seed) thr" for p
  proof
    assume in_kept: "p \<in> set kept"
    from normalize_near_seed_finite [OF X p near] have fin: "finite_rows X'" .
    then have "finite_rows (take ?n X')"
      by (auto simp: finite_rows_iff dest: in_set_takeD)
    moreover have "finite_rows [seed]" "[seed] \<noteq> []"
      by (simp_all add: finite_rows_def seed_def)
    ultimately have "keep_scan [seed] (take ?n X') = greedy_keep not_below_thr [seed] (take ?n X')"
      by (intro keep_scan_finite)
    with greedy_keep_append [of not_below_thr "[seed]" "take ?n X'"] kept(1)
    have "\<forall>r \<in> set kept. not_below_thr r seed" by auto
    with in_kept near show False by (simp add: not_below_thr_def)
  qed
  have top: "seed \<in> set X' \<and> seed \<notin> set kept"
    if f64: "f64_rows X"
      and nd0: "flt (np_min (map fst X)) (np_max (map fst X))"
      and nd1: "flt (np_min (map snd X)) (np_max (map snd X))"
      and fin0: "finite_fl (fsub (np_max (map fst X)) (np_min (map fst X)))"
      and fin1: "finite_fl (fsub (np_max (map snd X)) (np_min (map snd X)))"
      and row: "(np_max (map fst X), np_max (map snd X)) \<in> set X"
  proof -
    from X have ne: "X \<noteq> []" by (auto simp: normalize_Nil)
    have g0: "\<forall>v \<in> set (map fst X). f64_fl v" and g1: "\<forall>v \<in> set (map snd X). f64_fl v"
      using f64 by (auto simp: f64_rows_iff)
    from fin0 obtain y0 where y0: "fsub (np_max (map fst X)) (np_min (map fst X)) = Fin y0"
      by (auto elim: finite_flE)
    from fin1 obtain y1 where y1: "fsub (np_max (map snd X)) (np_min (map snd X)) = Fin y1"
      by (auto elim: finite_flE)
    from f64_range_pos [OF g0 nd0 y0] have p0: "0 < y0" .
    from f64_range_pos [OF g1 nd1 y1] have p1: "0 < y1" .
    from X ne row have "(scale1 (np_min (map fst X)) (np_max (map fst X)) (np_max (map fst X)),
                     scale1 (np_min (map snd X)) (np_max (map snd X)) (np_max (map snd X))) \<in> set X'"
      by (force simp: normalize_Inr rescale_scale1)
    with scale1_max [OF y0 p0] scale1_max [OF y1 p1] have mem: "seed \<in> set X'"
      by (simp add: seed_def)
    have "flt (sqdist seed seed) thr" by (simp add: seed_def thr_val sqdist_def)
    from excl [OF mem this] mem show ?thesis by simp
  qed
  from X mk sub excl top show ?thesis by blast
qed

theorem seed_marker_first_witness:
  "plot_embedding
      \<lparr>digits_data_shape0 = 2, digits_target = [4, 5], glob_y = [4, 5],
       cm_Set1 = (\<lambda>v. (v, v, v, 1))\<rparr>
      [(Fin 3, Fin 1), (Fin 7, Fin 9)] None
     = Inr (mk_figure
        [\<lparr>anno_x = Fin 0, anno_y = Fin 0, anno_text = ''4'', showarrow = False,
          font_size = 11, font_color = RgbStr (4 / 10) (4 / 10) (4 / 10)\<rparr>,
         \<lparr>anno_x = Fin 1, anno_y = Fin 1, anno_text = ''5'', showarrow = False,
          font_size = 11, font_color = RgbStr (5 / 10) (5 / 10) (5 / 10)\<rparr>]
        None [Fin 1, Fin 0] [Fin 1, Fin 0])
   \<and> normalize [(Fin 3, Fin 1), (Fin 7, Fin 9)] = Inr [(Fin 0, Fin 0), (Fin 1, Fin 1)]
   \<and> flt (sqdist (Fin 1, Fin 1) seed) thr
   \<and> (\<exists>kept. [(Fin 1, Fin 1), (Fin 0, Fin 0)] = seed # kept \<and> seed \<notin> set kept)"
proof -
  let ?g = "\<lparr>digits_data_shape0 = 2, digits_target = [4, 5], glob_y = [4, 5],
       cm_Set1 = (\<lambda>v. (v, v, v, 1))\<rparr>"
  let ?X = "[(Fin 3, Fin 1), (Fin 7, Fin 9)]"
  let ?fig = "mk_figure
        [\<lparr>anno_x = Fin 0, anno_y = Fin 0, anno_text = ''4'', showarrow = False,
          font_size = 11, font_color = RgbStr (4 / 10) (4 / 10) (4 / 10)\<rparr>,
         \<lparr>anno_x = Fin 1, anno_y = Fin 1, anno_text = ''5'', showarrow = False,
          font_size = 11, font_color = RgbStr (5 / 10) (5 / 10) (5 / 10)\<rparr>]
        None [Fin 1, Fin 0] [Fin 1, Fin 0]"
  have a: "normalize ?X = Inr [(Fin 0, Fin 0), (Fin 1, Fin 1)]"
    by (simp add: normalize_def np_min0_def np_max0_def rescale_def round64_eval)
  have c: "plot_embedding ?g ?X None = Inr ?fig"
    by (simp add: plot_embedding_def a thr_val sqdist_def seed_def mk_anno_def upt_rec
          str_int_def str_nat.simps digit_char_def round64_eval)
  have d: "flt (sqdist (Fin 1, Fin 1) seed) thr" by (simp add: seed_def thr_val sqdist_def)
  have e: "f64_rows ?X \<and> flt (np_min (map fst ?X)) (np_max (map fst ?X))
                \<and> flt (np_min (map snd ?X)) (np_max (map snd ?X))
                \<and> finite_fl (fsub (np_max (map fst ?X)) (np_min (map fst ?X)))
                \<and> finite_fl (fsub (np_max (map snd ?X)) (np_min (map snd ?X)))
                \<and> (np_max (map fst ?X), np_max (map snd ?X)) \<in> set ?X"
    by (simp add: f64_rows_def f64_fl_def is_f64_def round64_eval)
  have m: "markers ?fig = [(Fin 1, Fin 1), (Fin 0, Fin 0)]"
    by (simp add: markers_def mk_figure_def)
  from seed_marker_first [OF c] a e m
  have "\<exists>kept. [(Fin 1, Fin 1), (Fin 0, Fin 0)] = seed # kept \<and> seed \<notin> set kept"
    by auto
  with a c d show ?thesis by simp
qed

text \<open>
  C4, as stated, fails. The rows \<open>(0, 0)\<close>, \<open>(1, 61/64)\<close>, \<open>(61/64, 1)\<close> are their own
  normalisation, and any two of them are at a squared distance above 4e-3; yet the markers
  are \<open>(1, 1)\<close> and \<open>(0, 0)\<close> only: the second and the third row are within the threshold of
  the point \<open>(1, 1)\<close> that the scan starts from, and are dropped.
\<close>

theorem kept_all_counterexample:
  "normalize [(Fin 0, Fin 0), (Fin 1, Fin (61 / 64)), (Fin (61 / 64), Fin 1)]
     = Inr [(Fin 0, Fin 0), (Fin 1, Fin (61 / 64)), (Fin (61 / 64), Fin 1)]
   \<and> far_apart exceeds_thr [(Fin 0, Fin 0), (Fin 1, Fin (61 / 64)), (Fin (61 / 64), Fin 1)]
   \<and> result_markers (plot_embedding
        \<lparr>digits_data_shape0 = 3, digits_target = [0, 1, 2], glob_y = [0, 1, 2],
         cm_Set1 = (\<lambda>v. (v, v, v, 1))\<rparr>
        [(Fin 0, Fin 0), (Fin 1, Fin (61 / 64)), (Fin (61 / 64), Fin 1)] None)
     = Inr [(Fin 1, Fin 1), (Fin 0, Fin 0)]
   \<and> (Fin 1, Fin (61 / 64)) \<notin> set [(Fin 1, Fin 1), (Fin 0, Fin 0)]"
  by (simp add: plot_embedding_def normalize_def np_min0_def np_max0_def rescale_def
        far_apart_def exceeds_thr_def thr_val sqdist_def seed_def result_markers_def
        markers_def mk_figure_def upt_rec round64_eval)

text \<open>
  C4, amended. If no two rows of the normalised input at different positions are within the
  threshold of each other (no squared distance between them, as the loop computes it in
  float64, is below the float64 value of \<^verbatim>\<open>4e-3\<close>) and no row is within the threshold of
  the point \<open>(1, 1)\<close>, every visited row is kept: the markers are the
  point \<open>(1, 1)\<close> followed by the first \<^verbatim>\<open>digits.data.shape[0]\<close> rows. For the rows \<open>(0, 0)\<close>
  and \<open>(1, 1)\<close> with the labels 0 and 1, the normalisation leaves the rows unchanged and two
  annotations are made; the markers are \<open>(1, 1)\<close>, the starting point, and \<open>(0, 0)\<close>: the second
  row is at distance 0 from the starting point and is dropped.
\<close>

theorem kept_all_far_apart:
  "(normalize X = Inr X' \<and> far_apart not_below_thr X'
      \<and> list_all (\<lambda>p. not_below_thr p seed) X' \<and> plot_embedding g X ttl = Inr fig
    \<longrightarrow> markers fig = seed # take (digits_data_shape0 g) X')
   \<and> normalize [(Fin 0, Fin 0), (Fin 1, Fin 1)] = Inr [(Fin 0, Fin 0), (Fin 1, Fin 1)]
   \<and> plot_embedding
        \<lparr>digits_data_shape0 = 2, digits_target = [0, 1], glob_y = [0, 1], cm_Set1 = c\<rparr>
        [(Fin 0, Fin 0), (Fin 1, Fin 1)] None
     = Inr (mk_figure
        [\<lparr>anno_x = Fin 0, anno_y = Fin 0, anno_text = ''0'', showarrow = False,
          font_size = 11, font_color = rgb_of (c 0)\<rparr>,
         \<lparr>anno_x = Fin 1, anno_y = Fin 1, anno_text = ''1'', showarrow = False,
          font_size = 11, font_color = rgb_of (c (1 / 10))\<rparr>]
        None [Fin 1, Fin 0] [Fin 1, Fin 0])"
proof (intro conjI impI)
  assume h: "normalize X = Inr X' \<and> far_apart not_below_thr X'
      \<and> list_all (\<lambda>p. not_below_thr p seed) X' \<and> plot_embedding g X ttl = Inr fig"
  let ?n = "digits_data_shape0 g"
  from h obtain Y where Y: "normalize X = Inr Y"
    and fig: "fig = mk_figure (map (mk_anno g Y) [0..<length X]) ttl
                 (map fst (keep_scan [seed] (take ?n Y))) (map snd (keep_scan [seed] (take ?n Y)))"
    by (blast elim: plot_embedding_InrD)
  from Y h have eq: "Y = X'" by simp
  have a: "\<forall>p \<in> set (take ?n X'). \<forall>q \<in> set [seed]. not_below_thr p q"
    using h by (auto simp: list_all_iff dest: in_set_takeD)
  from h have "far_apart not_below_thr (take ?n X')" by (intro far_apart_take) simp
  then have b: "\<forall>i < length (take ?n X'). \<forall>j < length (take ?n X').
                  i \<noteq> j \<longrightarrow> not_below_thr (take ?n X' ! i) (take ?n X' ! j)"
    by (simp only: far_apart_iff)
  have "keep_scan [seed] (take ?n X') = [seed] @ take ?n X'"
    by (rule keep_scan_all [OF _ a b]) simp
  moreover have "markers fig = keep_scan [seed] (take ?n X')"
    by (simp only: fig eq markers_mk_figure)
  ultimately show "markers fig = seed # take ?n X'" by simp
next
  show n: "normalize [(Fin 0, Fin 0), (Fin 1, Fin 1)] = Inr [(Fin 0, Fin 0), (Fin 1, Fin 1)]"
    by (simp add: normalize_def np_min0_def np_max0_def rescale_def round64_eval)
  show "plot_embedding
        \<lparr>digits_data_shape0 = 2, digits_target = [0, 1], glob_y = [0, 1], cm_Set1 = c\<rparr>
        [(Fin 0, Fin 0), (Fin 1, Fin 1)] None
     = Inr (mk_figure
        [\<lparr>anno_x = Fin 0, anno_y = Fin 0, anno_text = ''0'', showarrow = False,
          font_size = 11, font_color = rgb_of (c 0)\<rparr>,
         \<lparr>anno_x = Fin 1, anno_y = Fin 1, anno_text = ''1'', showarrow = False,
          font_size = 11, font_color = rgb_of (c (1 / 10))\<rparr>]
        None [Fin 1, Fin 0] [Fin 1, Fin 0])"
    by (simp add: plot_embedding_def n thr_val sqdist_def seed_def mk_anno_def upt_rec
          str_int_def str_nat.simps digit_char_def round64_eval)
qed

theorem kept_all_far_apart_witness:
  "normalize [(Fin 0, Fin 4), (Fin 2, Fin 0)] = Inr [(Fin 0, Fin 1), (Fin 1, Fin 0)]
   \<and> far_apart not_below_thr [(Fin 0, Fin 1), (Fin 1, Fin 0)]
   \<and> list_all (\<lambda>p. not_below_thr p seed) [(Fin 0, Fin 1), (Fin 1, Fin 0)]
   \<and> plot_embedding
        \<lparr>digits_data_shape0 = 2, digits_target = [0, 1], glob_y = [0, 1],
         cm_Set1 = (\<lambda>v. (v, v, v, 1))\<rparr>
        [(Fin 0, Fin 4), (Fin 2, Fin 0)] None
     = Inr (mk_figure
        [\<lparr>anno_x = Fin 0, anno_y = Fin 1, anno_text = ''0'', showarrow = False,
          font_size = 11, font_color = RgbStr 0 0 0\<rparr>,
         \<lparr>anno_x = Fin 1, anno_y = Fin 0, anno_text = ''1'', showarrow = False,
          font_size = 11, font_color = RgbStr (1 / 10) (1 / 10) (1 / 10)\<rparr>]
        None [Fin 1, Fin 0, Fin 1] [Fin 1, Fin 1, Fin 0])
   \<and> markers (mk_figure
        [\<lparr>anno_x = Fin 0, anno_y = Fin 1, anno_text = ''0'', showarrow = False,
          font_size = 11, font_color = RgbStr 0 0 0\<rparr>,
         \<lparr>anno_x = Fin 1, anno_y = Fin 0, anno_text = ''1'', showarrow = False,
          font_size = 11, font_color = RgbStr (1 / 10) (1 / 10) (1 / 10)\<rparr>]
        None [Fin 1, Fin 0, Fin 1] [Fin 1, Fin 1, Fin 0])
     = seed # take 2 [(Fin 0, Fin 1), (Fin 1, Fin 0)]"
proof -
  let ?g = "\<lparr>digits_data_shape0 = 2, digits_target = [0, 1], glob_y = [0, 1],
         cm_Set1 = (\<lambda>v. (v, v, v, 1))\<rparr>"
  let ?X = "[(Fin 0, Fin 4), (Fin 2, Fin 0)]"
  let ?X' = "[(Fin 0, Fin 1), (Fin 1, Fin 0)]"
  let ?fig = "mk_figure
        [\<lparr>anno_x = Fin 0, anno_y = Fin 1, anno_text = ''0'', showarrow = False,
          font_size = 11, font_color = RgbStr 0 0 0\<rparr>,
         \<lparr>anno_x = Fin 1, anno_y = Fin 0, anno_text = ''1'', showarrow = False,
          font_size = 11, font_color = RgbStr (1 / 10) (1 / 10) (1 / 10)\<rparr>]
        None [Fin 1, Fin 0, Fin 1] [Fin 1, Fin 1, Fin 0]"
  have a: "normalize ?X = Inr ?X'"
    by (simp add: normalize_def np_min0_def np_max0_def rescale_def round64_eval)
  have b: "far_apart not_below_thr ?X'"
    by (simp add: far_apart_def not_below_thr_def thr_val sqdist_def upt_rec round64_eval)
  have c: "list_all (\<lambda>p. not_below_thr p seed) ?X'"
    by (simp add: not_below_thr_def thr_val sqdist_def seed_def round64_eval)
  have d: "plot_embedding ?g ?X None = Inr ?fig"
    by (simp add: plot_embedding_def a thr_val sqdist_def seed_def mk_anno_def upt_rec
          str_int_def str_nat.simps digit_char_def round64_eval)
  from kept_all_far_apart [of ?X ?X' ?g None ?fig] a b c d
  have "markers ?fig = seed # take 2 ?X'" by simp
  with a b c d show ?thesis by simp
qed

text \<open>
  C5, as stated, fails: the trace is not over exactly the kept points. For the rows \<open>(0, 4)\<close>
  and \<open>(2, 0)\<close>, normalised to \<open>(0, 1)\<close> and \<open>(1, 0)\<close>, both rows are kept and the trace has three
  markers: the first one, \<open>(1, 1)\<close>, is no row of the input.
\<close>

theorem chart_spec_counterexample:
  "normalize [(Fin 0, Fin 4), (Fin 2, Fin 0)] = Inr [(Fin 0, Fin 1), (Fin 1, Fin 0)]
   \<and> result_markers (plot_embedding
        \<lparr>digits_data_shape0 = 2, digits_target = [0, 1], glob_y = [0, 1],
         cm_Set1 = (\<lambda>v. (v, v, v, 1))\<rparr>
        [(Fin 0, Fin 4), (Fin 2, Fin 0)] None)
     = Inr [(Fin 1, Fin 1), (Fin 0, Fin 1), (Fin 1, Fin 0)]
   \<and> (Fin 1, Fin 1) \<notin> set [(Fin 0, Fin 1), (Fin 1, Fin 0)]"
  by (simp add: plot_embedding_def normalize_def np_min0_def np_max0_def rescale_def
        thr_val sqdist_def seed_def result_markers_def markers_def mk_figure_def upt_rec
        round64_eval)

text \<open>
  C5, amended. For every non-empty input of \<open>N\<close> rows, with at least \<open>N\<close> labels in
  \<^verbatim>\<open>digits.target\<close> and in \<^verbatim>\<open>y\<close> and \<open>N\<close> rows in \<^verbatim>\<open>digits.data\<close>, \<^verbatim>\<open>plot_embedding\<close> returns a
  figure with exactly \<open>N\<close> annotations, whatever rows the scan keeps, and a single trace: a
  marker trace (mode \<^verbatim>\<open>'markers'\<close>, white markers of size 15 with a black line of width 1)
  without legend, whose markers are the point \<open>(1, 1)\<close> followed by exactly the kept rows; the
  layout has the title given, and both axes have ticks, tick labels, grid lines and zero
  line disabled.
\<close>

theorem chart_spec_shape:
  assumes ne: "X \<noteq> []"
    and tgt: "length X \<le> length (digits_target g)" and y: "length X \<le> length (glob_y g)"
    and n: "digits_data_shape0 g = length X"
  shows "\<exists>fig X' kept tr. plot_embedding g X ttl = Inr fig \<and> normalize X = Inr X'
           \<and> length (annotations (fig_layout fig)) = length X
           \<and> fig_data fig = [tr]
           \<and> zip (scatter_x tr) (scatter_y tr) = seed # kept
           \<and> length (scatter_x tr) = length (scatter_y tr)
           \<and> keep_scan [seed] X' = seed # kept
           \<and> \<not> showlegend tr
           \<and> mode tr = ''markers''
           \<and> marker_color tr = ''white'' \<and> marker_size tr = 15
           \<and> marker_line_color tr = ''black'' \<and> marker_line_width tr = 1
           \<and> title (fig_layout fig) = ttl
           \<and> ticks (xaxis (fig_layout fig)) = [] \<and> \<not> showticklabels (xaxis (fig_layout fig))
           \<and> \<not> showgrid (xaxis (fig_layout fig)) \<and> \<not> zeroline (xaxis (fig_layout fig))
           \<and> ticks (yaxis (fig_layout fig)) = [] \<and> \<not> showticklabels (yaxis (fig_layout fig))
           \<and> \<not> showgrid (yaxis (fig_layout fig)) \<and> \<not> zeroline (yaxis (fig_layout fig))"
proof -
  from ne tgt y n obtain X' where X: "normalize X = Inr X'"
    and run: "plot_embedding g X ttl =
           Inr (mk_figure (map (mk_anno g X') [0..<length X]) ttl
                  (map fst (keep_scan [seed] X')) (map snd (keep_scan [seed] X')))"
    by (rule plot_embedding_returns)
  from keep_scan_append [of "[seed]" X'] obtain kept
    where kept: "keep_scan [seed] X' = seed # kept" by auto
  let ?tr = "\<lparr>scatter_x = map fst (seed # kept), scatter_y = map snd (seed # kept),
              showlegend = False, mode = ''markers'', marker_color = ''white'',
              marker_size = 15, marker_line_color = ''black'', marker_line_width = 1\<rparr>"
  let ?fig = "mk_figure (map (mk_anno g X') [0..<length X]) ttl
                  (map fst (seed # kept)) (map snd (seed # kept))"
  have r: "plot_embedding g X ttl = Inr ?fig" using run kept by simp
  have d: "fig_data ?fig = [?tr]" by (simp add: mk_figure_def)
  have z: "zip (scatter_x ?tr) (scatter_y ?tr) = seed # kept"
    by (simp add: zip_map_fst_snd)
  have l: "length (annotations (fig_layout ?fig)) = length X" by simp
  have ax: "xaxis (fig_layout ?fig) = no_axis" "yaxis (fig_layout ?fig) = no_axis"
    by (simp_all add: mk_figure_def)
  have t: "title (fig_layout ?fig) = ttl" by (simp add: mk_figure_def)
  show ?thesis
    apply (rule exI [of _ ?fig], rule exI [of _ X'], rule exI [of _ kept], rule exI [of _ ?tr])
    apply (simp only: r X d z l kept ax t)
    apply (simp add: no_axis_def)
    done
qed

theorem chart_spec_shape_witness:
  "[(Fin 0, Fin 4), (Fin 2, Fin 0), (Fin 2, Fin 4)] \<noteq> []
   \<and> plot_embedding
        \<lparr>digits_data_shape0 = 3, digits_target = [0, 1, 2], glob_y = [0, 1, 2],
         cm_Set1 = (\<lambda>v. (v, v, v, 1))\<rparr>
        [(Fin 0, Fin 4), (Fin 2, Fin 0), (Fin 2, Fin 4)] (Some ''t'')
     = Inr \<lparr>fig_data =
             [\<lparr>scatter_x = [Fin 1, Fin 0, Fin 1], scatter_y = [Fin 1, Fin 1, Fin 0],
               showlegend = False, mode = ''markers'', marker_color = ''white'',
               marker_size = 15, marker_line_color = ''black'', marker_line_width = 1\<rparr>],
            fig_layout =
             \<lparr>annotations =
               [\<lparr>anno_x = Fin 0, anno_y = Fin 1, anno_text = ''0'', showarrow = False,
                 font_size = 11, font_color = RgbStr 0 0 0\<rparr>,
                \<lparr>anno_x = Fin 1, anno_y = Fin 0, anno_text = ''1'', showarrow = False,
                 font_size = 11, font_color = RgbStr (1 / 10) (1 / 10) (1 / 10)\<rparr>,
                \<lparr>anno_x = Fin 1, anno_y = Fin 1, anno_text = ''2'', showarrow = False,
                 font_size = 11, font_color = RgbStr (2 / 10) (2 / 10) (2 / 10)\<rparr>],
              title = Some ''t'',
              xaxis = \<lparr>ticks = [], showticklabels = False, showgrid = False,
                       zeroline = False\<rparr>,
              yaxis = \<lparr>ticks = [], showticklabels = False, showgrid = False,
                       zeroline = False\<rparr>\<rparr>\<rparr>"
  using chart_spec_shape [of "[(Fin 0, Fin 4), (Fin 2, Fin 0), (Fin 2, Fin 4)]"
      "\<lparr>digits_data_shape0 = 3, digits_target = [0, 1, 2], glob_y = [0, 1, 2],
         cm_Set1 = (\<lambda>v. (v, v, v, 1))\<rparr>" "Some ''t''"]
  by (simp add: plot_embedding_def normalize_def np_min0_def np_max0_def rescale_def
        thr_val sqdist_def seed_def mk_anno_def mk_figure_def no_axis_def upt_rec
        str_int_def str_nat.simps digit_char_def round64_eval)

text \<open>
  At the boundary the float64 test decides. The rows \<open>(0, 0)\<close>, \<open>(650, 0)\<close>, \<open>(0, 650)\<close>,
  \<open>(3, 41)\<close> have the exact squared distance \<open>4 / 1000\<close> between the first and the last
  normalised row; the loop computes a value below the float64 threshold and drops the last
  row.
\<close>

lemma markers_650_four:
  "result_markers (plot_embedding
        \<lparr>digits_data_shape0 = 4, digits_target = [0, 1, 2, 3], glob_y = [0, 1, 2, 3],
         cm_Set1 = (\<lambda>v. (v, v, v, 1))\<rparr>
        [(Fin 0, Fin 0), (Fin 650, Fin 0), (Fin 0, Fin 650), (Fin 3, Fin 41)] None)
     = Inr [(Fin 1, Fin 1), (Fin 0, Fin 0), (Fin 1, Fin 0), (Fin 0, Fin 1)]"
  by (simp add: plot_embedding_def normalize_def np_min0_def np_max0_def rescale_def
        thr_val sqdist_def seed_def result_markers_def markers_def mk_figure_def upt_rec
        round64_eval)

section \<open>Properties of the whole function\<close>

text \<open>
  C3, as stated, fails: nothing is validated. An array with a NaN and an infinity gives a
  figure, with NaN coordinates; so does a call with more labels than rows.
\<close>

theorem invalid_input_counterexample:
  "plot_embedding
      \<lparr>digits_data_shape0 = 2, digits_target = [0, 1], glob_y = [0, 1],
       cm_Set1 = (\<lambda>v. (v, v, v, 1))\<rparr>
      [(NaN, Fin 0), (PInf, Fin 1)] None
     = Inr (mk_figure
        [\<lparr>anno_x = NaN, anno_y = Fin 0, anno_text = ''0'', showarrow = False,
          font_size = 11, font_color = RgbStr 0 0 0\<rparr>,
         \<lparr>anno_x = NaN, anno_y = Fin 1, anno_text = ''1'', showarrow = False,
          font_size = 11, font_color = RgbStr (1 / 10) (1 / 10) (1 / 10)\<rparr>]
        None [Fin 1, NaN, NaN] [Fin 1, Fin 0, Fin 1])
   \<and> plot_embedding
      \<lparr>digits_data_shape0 = 2, digits_target = [0, 1, 2], glob_y = [0, 1, 2],
       cm_Set1 = (\<lambda>v. (v, v, v, 1))\<rparr>
      [(Fin 0, Fin 4), (Fin 2, Fin 0)] None
     = Inr (mk_figure
        [\<lparr>anno_x = Fin 0, anno_y = Fin 1, anno_text = ''0'', showarrow = False,
          font_size = 11, font_color = RgbStr 0 0 0\<rparr>,
         \<lparr>anno_x = Fin 1, anno_y = Fin 0, anno_text = ''1'', showarrow = False,
          font_size = 11, font_color = RgbStr (1 / 10) (1 / 10) (1 / 10)\<rparr>]
        None [Fin 1, Fin 0, Fin 1] [Fin 1, Fin 1, Fin 0])"
  by (simp add: plot_embedding_def normalize_def np_min0_def np_max0_def rescale_def
        fmin_def fmax_def sqdist_def thr_val seed_def round64_eval mk_anno_def upt_rec
        str_int_def str_nat.simps digit_char_def)

text \<open>
  C3, amended. \<^verbatim>\<open>plot_embedding\<close> validates nothing and has no InvalidInputError. Called
  with a non-empty \<open>X\<close> of \<open>N\<close> rows, at least \<open>N\<close> labels in \<^verbatim>\<open>digits.target\<close> and in \<^verbatim>\<open>y\<close>, and
  \<open>N\<close> rows in \<^verbatim>\<open>digits.data\<close>, it returns a figure whatever the entries of \<open>X\<close> are, NaN and
  infinities included, and whether or not there are more labels than rows. With fewer than
  \<open>N\<close> labels in \<^verbatim>\<open>digits.target\<close> or in \<^verbatim>\<open>y\<close> it raises IndexError, and with no row ValueError.
\<close>

theorem no_input_validation:
  "(X \<noteq> [] \<and> length X \<le> length (digits_target g) \<and> length X \<le> length (glob_y g)
      \<and> digits_data_shape0 g = length X
    \<longrightarrow> (\<exists>fig. plot_embedding g X ttl = Inr fig))
   \<and> (X \<noteq> [] \<and> (length (digits_target g) < length X \<or> length (glob_y g) < length X)
    \<longrightarrow> plot_embedding g X ttl = Inl IndexError)
   \<and> plot_embedding g [] ttl = Inl ValueError"
proof (intro conjI impI)
  assume h: "X \<noteq> [] \<and> length X \<le> length (digits_target g) \<and> length X \<le> length (glob_y g)
      \<and> digits_data_shape0 g = length X"
  then obtain X' where "plot_embedding g X ttl =
           Inr (mk_figure (map (mk_anno g X') [0..<length X]) ttl
                  (map fst (keep_scan [seed] X')) (map snd (keep_scan [seed] X')))"
    by (blast elim: plot_embedding_returns)
  then show "\<exists>fig. plot_embedding g X ttl = Inr fig" by blast
next
  assume h: "X \<noteq> [] \<and> (length (digits_target g) < length X \<or> length (glob_y g) < length X)"
  let ?X' = "rescale X (np_min (map fst X), np_min (map snd X))
                       (np_max (map fst X), np_max (map snd X))"
  from h have X: "normalize X = Inr ?X'" by (simp add: normalize_Inr)
  from h have "length (digits_target g) \<in> set [0..<length ?X'] \<or> length (glob_y g) \<in> set [0..<length ?X']"
    by auto
  then have "\<exists>i \<in> set [0..<length ?X']. length (digits_target g) \<le> i \<or> length (glob_y g) \<le> i"
    by blast
  from anno_loop_err [OF this, of ?X' "[]"] X show "plot_embedding g X ttl = Inl IndexError"
    by (simp add: plot_embedding_def)
next
  show "plot_embedding g [] ttl = Inl ValueError"
    by (simp add: plot_embedding_def normalize_Nil)
qed

theorem no_input_validation_witness:
  "plot_embedding
      \<lparr>digits_data_shape0 = 2, digits_target = [0, 1], glob_y = [0, 1, 2],
       cm_Set1 = (\<lambda>v. (v, v, v, 1))\<rparr>
      [(NInf, Fin 0), (Fin 3, NaN)] None
     = Inr (mk_figure
        [\<lparr>anno_x = NaN, anno_y = NaN, anno_text = ''0'', showarrow = False,
          font_size = 11, font_color = RgbStr 0 0 0\<rparr>,
         \<lparr>anno_x = NaN, anno_y = NaN, anno_text = ''1'', showarrow = False,
          font_size = 11, font_color = RgbStr (1 / 10) (1 / 10) (1 / 10)\<rparr>]
        None [Fin 1, NaN, NaN] [Fin 1, NaN, NaN])
   \<and> plot_embedding
      \<lparr>digits_data_shape0 = 2, digits_target = [0, 1], glob_y = [0],
       cm_Set1 = (\<lambda>v. (v, v, v, 1))\<rparr>
      [(Fin 0, Fin 4), (Fin 2, Fin 0)] None
     = Inl IndexError"
  using no_input_validation [of "[(NInf, Fin 0), (Fin 3, NaN)]"
      "\<lparr>digits_data_shape0 = 2, digits_target = [0, 1], glob_y = [0, 1, 2],
       cm_Set1 = (\<lambda>v. (v, v, v, 1))\<rparr>" None]
    no_input_validation [of "[(Fin 0, Fin 4), (Fin 2, Fin 0)]"
      "\<lparr>digits_data_shape0 = 2, digits_target = [0, 1], glob_y = [0],
       cm_Set1 = (\<lambda>v. (v, v, v, 1))\<rparr>" None]
  by (simp add: plot_embedding_def normalize_def np_min0_def np_max0_def rescale_def
        fmin_def fmax_def sqdist_def thr_val seed_def round64_eval mk_anno_def upt_rec
        str_int_def str_nat.simps digit_char_def)







text \<open>
  C8, as stated, fails on the colour: the colormap is not indexed by the label modulo the
  size of the palette but called on the label divided by 10. With the nine colours of Set1
  as a listed colormap, the labels 0 and 1 get the same colour, the first of the palette,
  while the palette at 1 modulo 9 is its second colour.
\<close>

theorem annotation_color_counterexample:
  "result_annotations (plot_embedding
      \<lparr>digits_data_shape0 = 2, digits_target = [0, 1], glob_y = [0, 1],
       cm_Set1 = listed_cmap Set1_colors\<rparr>
      [(Fin 0, Fin 4), (Fin 2, Fin 0)] None)
     = Inr [\<lparr>anno_x = Fin 0, anno_y = Fin 1, anno_text = ''0'', showarrow = False,
             font_size = 11, font_color = RgbStr (228 / 255) (26 / 255) (28 / 255)\<rparr>,
            \<lparr>anno_x = Fin 1, anno_y = Fin 0, anno_text = ''1'', showarrow = False,
             font_size = 11, font_color = RgbStr (228 / 255) (26 / 255) (28 / 255)\<rparr>]
   \<and> palette_color Set1_colors 1 = RgbStr (55 / 255) (126 / 255) (184 / 255)
   \<and> RgbStr (228 / 255) (26 / 255) (28 / 255) \<noteq> RgbStr (55 / 255) (126 / 255) (184 / 255)"
  by (simp add: plot_embedding_def normalize_def np_min0_def np_max0_def rescale_def
        sqdist_def thr_val seed_def round64_eval mk_anno_def upt_rec result_annotations_def mk_figure_def
        str_int_def str_nat.simps digit_char_def listed_cmap_def Set1_colors_def
        palette_color_def)

text \<open>
  C8, amended. Whenever \<^verbatim>\<open>plot_embedding\<close> returns a figure, it has one annotation per row
  of \<open>X\<close>, in the order of the rows; the annotation of row \<open>i\<close> is at the normalised coordinate
  of row \<open>i\<close>, without arrow and in size 11, its text is \<^verbatim>\<open>str(digits.target[i])\<close> and its
  colour is \<^verbatim>\<open>'rgb'\<close> followed by the first three components of \<^verbatim>\<open>plt.cm.Set1(y[i] / 10.)\<close>:
  the colormap is called on a tenth of the label, and nothing is taken modulo the size of
  a palette.
\<close>

theorem annotation_of_row:
  assumes run: "plot_embedding g X ttl = Inr fig"
  shows "\<exists>X'. normalize X = Inr X' \<and> length X' = length X
           \<and> length X \<le> length (digits_target g) \<and> length X \<le> length (glob_y g)
           \<and> length (annotations (fig_layout fig)) = length X
           \<and> (\<forall>i < length X.
                 anno_x (annotations (fig_layout fig) ! i) = fst (X' ! i)
               \<and> anno_y (annotations (fig_layout fig) ! i) = snd (X' ! i)
               \<and> anno_text (annotations (fig_layout fig) ! i) = str_int (digits_target g ! i)
               \<and> font_color (annotations (fig_layout fig) ! i)
                   = rgb_of (cm_Set1 g (real_of_int (glob_y g ! i) / 10))
               \<and> \<not> showarrow (annotations (fig_layout fig) ! i)
               \<and> font_size (annotations (fig_layout fig) ! i) = 11)"
proof -
  from run obtain X' where X: "normalize X = Inr X'" and len: "length X' = length X"
    and fig: "fig = mk_figure (map (mk_anno g X') [0..<length X]) ttl
                 (map fst (keep_scan [seed] (take (digits_data_shape0 g) X')))
                 (map snd (keep_scan [seed] (take (digits_data_shape0 g) X')))"
    and lab: "length X \<le> length (digits_target g)" "length X \<le> length (glob_y g)"
    by (rule plot_embedding_InrD)
  have an: "annotations (fig_layout fig) = map (mk_anno g X') [0..<length X]"
    by (simp only: fig annotations_mk_figure)
  show ?thesis
    using X len lab by (intro exI [of _ X']) (simp add: an mk_anno_def)
qed

theorem annotation_of_row_witness:
  "plot_embedding
      \<lparr>digits_data_shape0 = 2, digits_target = [12, -3], glob_y = [12, -3],
       cm_Set1 = listed_cmap Set1_colors\<rparr>
      [(Fin 0, Fin 4), (Fin 2, Fin 0)] (Some ''t'')
     = Inr (mk_figure
        [\<lparr>anno_x = Fin 0, anno_y = Fin 1, anno_text = ''12'', showarrow = False,
          font_size = 11, font_color = RgbStr (153 / 255) (153 / 255) (153 / 255)\<rparr>,
         \<lparr>anno_x = Fin 1, anno_y = Fin 0, anno_text = ''-3'', showarrow = False,
          font_size = 11, font_color = RgbStr (228 / 255) (26 / 255) (28 / 255)\<rparr>]
        (Some ''t'') [Fin 1, Fin 0, Fin 1] [Fin 1, Fin 1, Fin 0])
   \<and> normalize [(Fin 0, Fin 4), (Fin 2, Fin 0)] = Inr [(Fin 0, Fin 1), (Fin 1, Fin 0)]"
proof -
  let ?g = "\<lparr>digits_data_shape0 = 2, digits_target = [12, -3], glob_y = [12, -3],
       cm_Set1 = listed_cmap Set1_colors\<rparr>"
  let ?X = "[(Fin 0, Fin 4), (Fin 2, Fin 0)]"
  let ?fig = "mk_figure
        [\<lparr>anno_x = Fin 0, anno_y = Fin 1, anno_text = ''12'', showarrow = False,
          font_size = 11, font_color = RgbStr (153 / 255) (153 / 255) (153 / 255)\<rparr>,
         \<lparr>anno_x = Fin 1, anno_y = Fin 0, anno_text = ''-3'', showarrow = False,
          font_size = 11, font_color = RgbStr (228 / 255) (26 / 255) (28 / 255)\<rparr>]
        (Some ''t'') [Fin 1, Fin 0, Fin 1] [Fin 1, Fin 1, Fin 0]"
  have a: "normalize ?X = Inr [(Fin 0, Fin 1), (Fin 1, Fin 0)]"
    by (simp add: normalize_def np_min0_def np_max0_def rescale_def round64_eval)
  have c: "plot_embedding ?g ?X (Some ''t'') = Inr ?fig"
    by (simp add: plot_embedding_def a sqdist_def thr_val seed_def round64_eval mk_anno_def upt_rec
          str_int_def str_nat.simps digit_char_def listed_cmap_def Set1_colors_def)
  from annotation_of_row [OF c] a c show ?thesis by simp
qed

section \<open>Properties of \<^verbatim>\<open>matplotlib_to_plotly\<close>\<close>

lemma stops_loop_map: "stops_loop cmap h ks acc = acc @ map (mk_stop cmap h) ks"
  by (induction ks arbitrary: acc) simp_all

lemma fst_mk_stop: "fst (mk_stop cmap h k) = fmul (round64 (real k)) h"
  by (simp add: mk_stop_def Let_def split: prod.split)

text \<open>An integer from 0 to \<open>2 ^ 63\<close> is converted to a finite float that is not negative.\<close>

lemma round64_upto_2p63:
  assumes "0 \<le> x" and "x \<le> 2 ^ 63"
  shows "\<exists>r. round64 x = Fin r \<and> 0 \<le> r \<and> r \<le> 2 ^ 63"
proof -
  have "round64 (pow2 63) = Fin (pow2 63)" by (rule round64_pow2) simp_all
  moreover have "pow2 63 = 2 ^ 63" by (simp add: pow2_def)
  ultimately have "round64 (2 ^ 63) = Fin (2 ^ 63)" by simp
  from round64_mono_Fin [OF assms this] show ?thesis .
qed

lemma py_float_ok:
  assumes "1 \<le> n" and "n < 2 ^ 63"
  shows "\<exists>d. py_float n = Inr (Fin d) \<and> round64 (real_of_int n) = Fin d \<and> 1 \<le> d"
proof -
  from assms have a: "0 \<le> real_of_int n" by simp
  from assms(2) have "real_of_int n \<le> real_of_int (2 ^ 63)" by (simp only: of_int_le_iff)
  then have b: "real_of_int n \<le> 2 ^ 63" by simp
  from round64_upto_2p63 [OF a b] obtain d where d: "round64 (real_of_int n) = Fin d" by blast
  have c: "(0::real) \<le> 1" by simp
  from assms(1) have "1 \<le> real_of_int n" by simp
  from round64_ge [OF c this round64_1] d have "1 \<le> d" by auto
  with d show ?thesis by (simp add: py_float_def)
qed

text \<open>What the function returns for an argument from 2 on.\<close>

lemma matplotlib_to_plotly_run:
  assumes "2 \<le> pl_entries" and "pl_entries < 2 ^ 63"
  shows "\<exists>hv. fdiv (Fin 1) (round64 (real_of_int (pl_entries - 1))) = Fin hv \<and> 0 \<le> hv \<and> hv \<le> 1
           \<and> matplotlib_to_plotly cmap pl_entries
              = Inr (map (mk_stop cmap (Fin hv)) [0..<nat pl_entries])"
proof -
  from assms have "1 \<le> pl_entries - 1" "pl_entries - 1 < 2 ^ 63" by simp_all
  from py_float_ok [OF this] obtain d where d: "py_float (pl_entries - 1) = Inr (Fin d)"
    "round64 (real_of_int (pl_entries - 1)) = Fin d" "1 \<le> d" by blast
  from d(3) have "0 \<le> 1 / d" "1 / d \<le> 1" by simp_all
  from round64_unit [OF this] obtain hv where hv: "round64 (1 / d) = Fin hv" "0 \<le> hv" "hv \<le> 1"
    by blast
  from d(3) have "d \<noteq> 0" by simp
  with hv(1) have h: "fdiv (Fin 1) (Fin d) = Fin hv" by simp
  from assms have "pl_entries - 1 \<noteq> 0" "\<not> 2 ^ 63 \<le> pl_entries" by simp_all
  then have "matplotlib_to_plotly cmap pl_entries
              = Inr (stops_loop cmap (fdiv (Fin 1) (Fin d)) [0..<nat pl_entries] [])"
    by (simp add: matplotlib_to_plotly_def d(1) del: fdiv.simps)
  then have "matplotlib_to_plotly cmap pl_entries
              = Inr (map (mk_stop cmap (Fin hv)) [0..<nat pl_entries])"
    unfolding h stops_loop_map by simp
  with h hv d(2) show ?thesis by simp
qed

text \<open>The positions are finite and do not decrease.\<close>

lemma position_mono:
  assumes hv: "0 \<le> hv" "hv \<le> 1" and jk: "j \<le> k" and k: "real k \<le> 2 ^ 63"
  shows "\<exists>p q. fmul (round64 (real j)) (Fin hv) = Fin p \<and> fmul (round64 (real k)) (Fin hv) = Fin q
               \<and> 0 \<le> p \<and> p \<le> q"
proof -
  have k0: "0 \<le> real k" by simp
  from round64_upto_2p63 [OF k0 k] obtain b where b: "round64 (real k) = Fin b" "0 \<le> b" "b \<le> 2 ^ 63"
    by blast
  have j0: "0 \<le> real j" by simp
  from jk have "real j \<le> real k" by simp
  from round64_mono_Fin [OF j0 this b(1)] obtain a where a: "round64 (real j) = Fin a" "0 \<le> a" "a \<le> b"
    by blast
  have "b * hv \<le> 2 ^ 63 * 1" using b hv by (intro mult_mono) simp_all
  then have "b * hv \<le> 2 ^ 63" by simp
  moreover have "0 \<le> b * hv" using b hv by simp
  ultimately obtain q where q: "round64 (b * hv) = Fin q" using round64_upto_2p63 by blast
  have "0 \<le> a * hv" using a hv by simp
  moreover have "a * hv \<le> b * hv" using a hv by (intro mult_right_mono) simp_all
  ultimately obtain p where p: "round64 (a * hv) = Fin p" "0 \<le> p" "p \<le> q"
    using round64_mono_Fin [OF _ _ q] by blast
  from a(1) b(1) p q show ?thesis by simp
qed

text \<open>
  C10, as stated, fails: the position of a stop is the float64 product \<^verbatim>\<open>k*h\<close> with
  \<^verbatim>\<open>h = 1.0/(pl_entries-1)\<close>, not \<open>k / (pl_entries - 1)\<close>. For 50 entries the last stop is at
  \<open>1 - 2^-53\<close> (printed 0.9999999999999999), not at 1; for 10 entries the stop of index 7 is
  not even the float64 value nearest to 7/9.
\<close>

theorem matplotlib_to_plotly_counterexample:
  "map_sum id (\<lambda>stops. fst (stops ! 49)) (matplotlib_to_plotly (\<lambda>v. (0, 0, 0, 1)) 50)
     = Inr (Fin (9007199254740991 / 2 ^ 53))
   \<and> (9007199254740991 / 2 ^ 53 :: real) \<noteq> 1
   \<and> map_sum id (\<lambda>stops. fst (stops ! 7)) (matplotlib_to_plotly (\<lambda>v. (0, 0, 0, 1)) 10)
     = Inr (Fin (7005599420354104 / 2 ^ 53))
   \<and> round64 (7 / 9) = Fin (7005599420354105 / 2 ^ 53)"
proof (intro conjI)
  from matplotlib_to_plotly_run [of 50 "\<lambda>v. (0, 0, 0, 1)"]
  obtain hv where hv: "fdiv (Fin 1) (round64 (real_of_int (50 - 1))) = Fin hv"
    and run: "matplotlib_to_plotly (\<lambda>v. (0, 0, 0, 1)) 50
              = Inr (map (mk_stop (\<lambda>v. (0, 0, 0, 1)) (Fin hv)) [0..<nat 50])"
    by auto
  from hv have h: "hv = 5882252574524729 / 2 ^ 58" by (simp add: round64_eval)
  have "fmul (round64 (real 49)) (Fin hv) = Fin (9007199254740991 / 2 ^ 53)"
    by (simp add: h round64_eval)
  then show "map_sum id (\<lambda>stops. fst (stops ! 49)) (matplotlib_to_plotly (\<lambda>v. (0, 0, 0, 1)) 50)
     = Inr (Fin (9007199254740991 / 2 ^ 53))"
    by (simp add: run fst_mk_stop del: upt_Suc)
  show "(9007199254740991 / 2 ^ 53 :: real) \<noteq> 1" by simp
  from matplotlib_to_plotly_run [of 10 "\<lambda>v. (0, 0, 0, 1)"]
  obtain hw where hw: "fdiv (Fin 1) (round64 (real_of_int (10 - 1))) = Fin hw"
    and run': "matplotlib_to_plotly (\<lambda>v. (0, 0, 0, 1)) 10
              = Inr (map (mk_stop (\<lambda>v. (0, 0, 0, 1)) (Fin hw)) [0..<nat 10])"
    by auto
  from hw have h': "hw = 2001599834386887 / 2 ^ 54" by (simp add: round64_eval)
  have "fmul (round64 (real 7)) (Fin hw) = Fin (7005599420354104 / 2 ^ 53)"
    by (simp add: h' round64_eval)
  then show "map_sum id (\<lambda>stops. fst (stops ! 7)) (matplotlib_to_plotly (\<lambda>v. (0, 0, 0, 1)) 10)
     = Inr (Fin (7005599420354104 / 2 ^ 53))"
    by (simp add: run' fst_mk_stop del: upt_Suc)
  show "round64 (7 / 9) = Fin (7005599420354105 / 2 ^ 53)"
    by (simp add: round64_eval)
qed

text \<open>
  C10, amended. For every integer \<open>pl_entries\<close> from 2 on (below \<open>2 ^ 63\<close>, where \<^verbatim>\<open>range\<close>
  raises) and every colormap, \<^verbatim>\<open>matplotlib_to_plotly\<close> returns exactly \<open>pl_entries\<close> stops. The
  position of the \<open>k\<close>-th stop is the float64 product \<^verbatim>\<open>k*h\<close> of \<open>k\<close> and
  \<^verbatim>\<open>h = 1.0/(pl_entries-1)\<close>, itself a rounded quotient between 0 and 1: it is the rounding of
  \<open>k / (pl_entries - 1)\<close> computed in two steps, not that quotient. The positions are finite,
  start at 0 and never decrease; the last one need not be 1. For \<open>pl_entries = 1\<close> the
  computation of \<open>h\<close> divides by zero.
\<close>

theorem matplotlib_to_plotly_stops:
  "(2 \<le> pl_entries \<and> pl_entries < 2 ^ 63 \<longrightarrow>
      (\<exists>stops hv. matplotlib_to_plotly cmap pl_entries = Inr stops
         \<and> length stops = nat pl_entries
         \<and> fdiv (Fin 1) (round64 (real_of_int (pl_entries - 1))) = Fin hv \<and> 0 \<le> hv \<and> hv \<le> 1
         \<and> (\<forall>k < nat pl_entries. fst (stops ! k) = fmul (round64 (real k)) (Fin hv))
         \<and> fst (stops ! 0) = Fin 0
         \<and> (\<forall>k < nat pl_entries. \<forall>j \<le> k. \<exists>p q. fst (stops ! j) = Fin p \<and> fst (stops ! k) = Fin q
                \<and> 0 \<le> p \<and> p \<le> q)))
   \<and> matplotlib_to_plotly cmap 1 = Inl ZeroDivisionError"
proof (intro conjI impI)
  assume n: "2 \<le> pl_entries \<and> pl_entries < 2 ^ 63"
  then have n2: "2 \<le> pl_entries" and n63: "pl_entries < 2 ^ 63" by simp_all
  from matplotlib_to_plotly_run [OF n2 n63, of cmap] obtain hv
    where h: "fdiv (Fin 1) (round64 (real_of_int (pl_entries - 1))) = Fin hv"
      and hv: "0 \<le> hv" "hv \<le> 1"
      and run: "matplotlib_to_plotly cmap pl_entries
                = Inr (map (mk_stop cmap (Fin hv)) [0..<nat pl_entries])"
    by blast
  let ?stops = "map (mk_stop cmap (Fin hv)) [0..<nat pl_entries]"
  have pos: "fst (?stops ! k) = fmul (round64 (real k)) (Fin hv)" if "k < nat pl_entries" for k
    using that by (simp add: fst_mk_stop)
  have first: "fst (?stops ! 0) = Fin 0"
    using n2 pos [of 0] by simp
  have mono: "\<exists>p q. fst (?stops ! j) = Fin p \<and> fst (?stops ! k) = Fin q \<and> 0 \<le> p \<and> p \<le> q"
    if k: "k < nat pl_entries" and jk: "j \<le> k" for j k
  proof -
    from k n63 have "int k < 2 ^ 63" by simp
    then have "real_of_int (int k) \<le> real_of_int (2 ^ 63)" by (simp only: of_int_le_iff)
    then have kb: "real k \<le> 2 ^ 63" by simp
    from jk k have j: "j < nat pl_entries" by simp
    from position_mono [OF hv jk kb] pos [OF k] pos [OF j] show ?thesis by simp
  qed
  show "\<exists>stops hv. matplotlib_to_plotly cmap pl_entries = Inr stops
         \<and> length stops = nat pl_entries
         \<and> fdiv (Fin 1) (round64 (real_of_int (pl_entries - 1))) = Fin hv \<and> 0 \<le> hv \<and> hv \<le> 1
         \<and> (\<forall>k < nat pl_entries. fst (stops ! k) = fmul (round64 (real k)) (Fin hv))
         \<and> fst (stops ! 0) = Fin 0
         \<and> (\<forall>k < nat pl_entries. \<forall>j \<le> k. \<exists>p q. fst (stops ! j) = Fin p \<and> fst (stops ! k) = Fin q
                \<and> 0 \<le> p \<and> p \<le> q)"
    apply (rule exI [of _ ?stops], rule exI [of _ hv])
    apply (intro conjI allI impI)
    using run h hv pos first mono apply (simp_all del: nth_map)
    done
next
  show "matplotlib_to_plotly cmap 1 = Inl ZeroDivisionError"
    by (simp add: matplotlib_to_plotly_def)
qed

theorem matplotlib_to_plotly_stops_witness:
  "(2::int) \<le> 3 \<and> (3::int) < 2 ^ 63
   \<and> matplotlib_to_plotly (\<lambda>v. case v of Fin r \<Rightarrow> (r, r / 2, 1 - r, 1) | _ \<Rightarrow> (0, 0, 0, 0)) 3
       = Inr [(Fin 0, ''rgb(0, 0, 255)''), (Fin (1 / 2), ''rgb(127, 63, 127)''),
              (Fin 1, ''rgb(255, 127, 0)'')]
   \<and> matplotlib_to_plotly (\<lambda>v. case v of Fin r \<Rightarrow> (r, r / 2, 1 - r, 1) | _ \<Rightarrow> (0, 0, 0, 0)) 1
       = Inl ZeroDivisionError"
  using matplotlib_to_plotly_stops
    [of 3 "\<lambda>v. case v of Fin r \<Rightarrow> (r, r / 2, 1 - r, 1) | _ \<Rightarrow> (0, 0, 0, 0)"]
  by (simp add: matplotlib_to_plotly_def py_float_def upt_rec mk_stop_def rgb_str_def
        to_uint8_def str_nat.simps digit_char_def round64_eval)

end
